theory Spec2Isabelle
  imports Main "HOL-Library.Log_Nat"
begin

section \<open>The status store\<close>

text \<open>
  The download service keeps one JSON record per job under the key \<open>job:{job_id}\<close> and one
  per file under \<open>file:{job_id}:{file_id}\<close> in Redis, each stored with \<open>setex key 86400\<close>.
  The two families of keys hold records of two shapes, so the store is a pair of maps, one
  for each, from the key to the record and its expiry.
  Times are milliseconds since the epoch (\<open>new Date().toISOString()\<close> renders such a number);
  a helper function reads the clock once. An optional JSON field is an \<open>option\<close>, \<open>None\<close>
  when the field is absent. The Redis calls themselves are taken to succeed.
\<close>

type_synonym timestamp = nat

datatype js_error = Error string | TypeError string

fun message :: "js_error \<Rightarrow> string" where
  "message (Error m) = m"
| "message (TypeError m) = m"

record progress =
  completed :: nat
  total :: nat
  percentage :: "int option"

record job =
  job_id :: string
  status :: string
  file_ids :: "nat list"
  created_at :: timestamp
  updated_at :: timestamp
  completed_at :: "timestamp option"
  progress :: progress
  bundle_url :: "string option"
  error :: "string option"

text \<open>
  A value passed as \<open>downloadUrl\<close> is \<open>undefined\<close> (the field is then dropped by
  \<open>JSON.stringify\<close>), \<open>null\<close> or a string.
\<close>

datatype 'a nullable = Null | Val 'a

record file_status =
  file_id :: nat
  file_job_id :: string
  file_status :: string
  download_url :: "string nullable option"
  file_error :: "string option"
  file_updated_at :: timestamp
  started_at :: "timestamp option"
  file_completed_at :: "timestamp option"

text \<open>
  The calls the worker makes, in the order it makes them. The program never reads this
  history, nor the list \<open>job_history\<close> of the job records it has stored; both are kept
  to state what happens at every point of a run.
\<close>

datatype event =
    UpdateJobStatus string string
  | UpdateFileStatus string nat string
  | UpdateJobProgress string
  | ProcessDownload nat
  | UploadToMinIO string nat
  | CreateBundle string
  | Sleep nat

record dead_letter =
  original_job_id :: string
  dl_error :: string
  attempts :: nat
  failed_at :: timestamp

record state =
  jobs :: "string \<rightharpoonup> job \<times> timestamp"
  files :: "string \<rightharpoonup> file_status \<times> timestamp"
  now :: timestamp
  calls :: nat
  failedQueue :: "(string \<times> dead_letter) list"
  trace :: "event list"
  job_history :: "(string \<times> job) list"

subsection \<open>Keys\<close>

text \<open>
  The template strings \<open>`job:${jobId}`\<close> and \<open>`file:${jobId}:${fileId}`\<close>; a file id is a
  natural number, which JavaScript writes in decimal.
\<close>

definition digit_char :: "nat \<Rightarrow> char" where
  "digit_char d = ''0123456789'' ! d"

fun string_of_nat :: "nat \<Rightarrow> string" where
  "string_of_nat n =
     (if n < 10 then [digit_char n] else string_of_nat (n div 10) @ [digit_char (n mod 10)])"

declare string_of_nat.simps [simp del]

definition jobKey :: "string \<Rightarrow> string" where
  "jobKey jobId = ''job:'' @ jobId"

definition fileKey :: "string \<Rightarrow> nat \<Rightarrow> string" where
  "fileKey jobId fileId = ''file:'' @ jobId @ '':'' @ string_of_nat fileId"

subsection \<open>Redis: get and setex\<close>

text \<open>
  \<open>redis.get\<close> answers \<open>null\<close> for a key that was never written or whose expiry has
  passed; \<open>redis.setex key seconds value\<close> stores the value with the expiry \<open>seconds\<close>
  from the moment of the call.
\<close>

definition live :: "timestamp \<Rightarrow> ('a \<times> timestamp) option \<Rightarrow> 'a option" where
  "live t e = (case e of None \<Rightarrow> None | Some (v, expiry) \<Rightarrow> if t < expiry then Some v else None)"

definition redis_get_job :: "state \<Rightarrow> string \<Rightarrow> job option" where
  "redis_get_job s key = live (now s) (jobs s key)"

definition redis_get_file :: "state \<Rightarrow> string \<Rightarrow> file_status option" where
  "redis_get_file s key = live (now s) (files s key)"

definition redis_setex_job :: "string \<Rightarrow> nat \<Rightarrow> job \<Rightarrow> state \<Rightarrow> state" where
  "redis_setex_job key seconds v s =
     s\<lparr>jobs := (jobs s)(key \<mapsto> (v, now s + seconds * 1000)),
       job_history := job_history s @ [(key, v)]\<rparr>"

definition redis_setex_file :: "string \<Rightarrow> nat \<Rightarrow> file_status \<Rightarrow> state \<Rightarrow> state" where
  "redis_setex_file key seconds v s = s\<lparr>files := (files s)(key \<mapsto> (v, now s + seconds * 1000))\<rparr>"

definition record_call :: "event \<Rightarrow> state \<Rightarrow> state" where
  "record_call e s = s\<lparr>trace := trace s @ [e]\<rparr>"

definition advance :: "nat \<Rightarrow> state \<Rightarrow> state" where
  "advance d s = s\<lparr>now := now s + d\<rparr>"

definition emitted :: "state \<Rightarrow> state \<Rightarrow> event list" where
  "emitted s s' = drop (length (trace s)) (trace s')"

subsection \<open>JavaScript numbers\<close>

text \<open>
  \<open>completed / job.file_ids.length\<close> and the product with 100 are IEEE 754 double
  operations: the exact quotient and the exact product are each rounded to the nearest
  double, ties to the even significand. \<open>fl\<close> is that rounding for a non-negative
  rational in the normal range (the worker never leaves it: both operands are array
  lengths or counts). \<open>Math.round\<close> takes the nearest integer, a tie going up.
\<close>

definition ilog2 :: "rat \<Rightarrow> int" where
  "ilog2 x =
     (let p = fst (quotient_of x); q = snd (quotient_of x); d = bitlen p - bitlen q
      in if 2 powi d \<le> x then d else d - 1)"

definition round_half_even :: "rat \<Rightarrow> int" where
  "round_half_even y =
     (let f = \<lfloor>y\<rfloor>; r = y - of_int f
      in if r < 1 / 2 then f else if 1 / 2 < r then f + 1 else if even f then f else f + 1)"

definition fl :: "rat \<Rightarrow> rat" where
  "fl x =
     (if x = 0 then 0
      else (let u = 2 powi (ilog2 x - 52) in of_int (round_half_even (x / u)) * u))"

definition Math_round :: "rat \<Rightarrow> int" where
  "Math_round x = \<lfloor>x + 1 / 2\<rfloor>"

text \<open>
  \<open>Math.round((completed / length) * 100)\<close>. With an empty \<open>file_ids\<close> the quotient is
  \<open>NaN\<close>, which \<open>JSON.stringify\<close> stores as \<open>null\<close>: \<open>None\<close> here.
\<close>

definition percentage_of :: "nat \<Rightarrow> nat \<Rightarrow> int option" where
  "percentage_of c n =
     (if n = 0 then None
      else Some (Math_round (fl (fl (of_nat c / of_nat n) * 100))))"

section \<open>Helper functions of the worker\<close>

text \<open>
  \<open>JSON.parse(null)\<close> is \<open>null\<close>, so for a missing job the assignment
  \<open>jobData.status = status\<close> throws a TypeError before anything is written.
\<close>

definition updateJobStatus ::
  "string \<Rightarrow> string \<Rightarrow> string option \<Rightarrow> state \<Rightarrow> (js_error + unit) \<times> state" where
  "updateJobStatus jobId st bundleUrl s0 =
     (let s = record_call (UpdateJobStatus jobId st) s0;
          key = jobKey jobId
      in case redis_get_job s key of
           None \<Rightarrow> (Inl (TypeError ''Cannot set properties of null''), s)
         | Some jobData \<Rightarrow>
             (let jobData1 = jobData\<lparr>status := st, updated_at := now s\<rparr>;
                  jobData2 = (if st = ''completed''
                              then jobData1\<lparr>completed_at := Some (now s), bundle_url := bundleUrl\<rparr>
                              else jobData1)
              in (Inr (), redis_setex_job key 86400 jobData2 s)))"

definition updateFileStatus ::
  "string \<Rightarrow> nat \<Rightarrow> string \<Rightarrow> string nullable option \<Rightarrow> string option \<Rightarrow> state \<Rightarrow> state" where
  "updateFileStatus jobId fileId st downloadUrl err s0 =
     (let s = record_call (UpdateFileStatus jobId fileId st) s0;
          key = fileKey jobId fileId;
          data = \<lparr>file_id = fileId, file_job_id = jobId, file_status = st,
                  download_url = downloadUrl, file_error = err, file_updated_at = now s,
                  started_at = None, file_completed_at = None\<rparr>;
          data1 = (if st = ''processing'' then data\<lparr>started_at := Some (now s)\<rparr>
                   else if st = ''completed'' then data\<lparr>file_completed_at := Some (now s)\<rparr>
                   else data)
      in redis_setex_file key 86400 data1 s)"

text \<open>
  The loop of \<open>updateJobProgress\<close> over \<open>job.file_ids\<close>: \<open>JSON.parse\<close> of a missing file
  record is \<open>null\<close>, and reading \<open>file.status\<close> of it throws.
\<close>

fun count_completed :: "state \<Rightarrow> string \<Rightarrow> nat list \<Rightarrow> nat \<Rightarrow> js_error + nat" where
  "count_completed s jobId [] n = Inr n"
| "count_completed s jobId (fileId # rest) n =
     (case redis_get_file s (fileKey jobId fileId) of
        None \<Rightarrow> Inl (TypeError ''Cannot read properties of null'')
      | Some file \<Rightarrow>
          count_completed s jobId rest
            (if file_status file = ''completed'' then n + 1 else n))"

definition updateJobProgress :: "string \<Rightarrow> state \<Rightarrow> (js_error + unit) \<times> state" where
  "updateJobProgress jobId s0 =
     (let s = record_call (UpdateJobProgress jobId) s0;
          key = jobKey jobId
      in case redis_get_job s key of
           None \<Rightarrow> (Inl (TypeError ''Cannot read properties of null''), s)
         | Some job \<Rightarrow>
             (case count_completed s jobId (file_ids job) 0 of
                Inl e \<Rightarrow> (Inl e, s)
              | Inr n \<Rightarrow>
                  (let job1 = job\<lparr>progress :=
                         \<lparr>completed = n, total = length (file_ids job),
                          percentage = percentage_of n (length (file_ids job))\<rparr>\<rparr>
                   in (Inr (), redis_setex_job key 86400 job1 s))))"

section \<open>The worker\<close>

text \<open>
  \<open>processDownload\<close>, \<open>uploadToMinIO\<close>, \<open>createBundle\<close> and \<open>classifyError\<close> are called
  but not defined by the sources; they are parameters. A call answers how long it took
  (milliseconds) and either the thrown error or the value. \<open>processDownload\<close> may answer
  differently from one call to the next: its second argument is the number of calls made
  before.
\<close>

datatype ErrorType = NETWORK_ERROR | TIMEOUT_ERROR | STORAGE_ERROR | INVALID_FILE | QUOTA_EXCEEDED

record env =
  processDownload :: "nat \<Rightarrow> nat \<Rightarrow> nat \<times> (js_error + string)"
  uploadToMinIO :: "string \<Rightarrow> string \<Rightarrow> nat \<Rightarrow> nat \<times> (js_error + string)"
  createBundle :: "string \<Rightarrow> nat list \<Rightarrow> nat \<times> (js_error + string)"
  classifyError :: "js_error \<Rightarrow> ErrorType"

definition call_processDownload :: "env \<Rightarrow> nat \<Rightarrow> state \<Rightarrow> (js_error + string) \<times> state" where
  "call_processDownload env fileId s =
     (let (d, r) = processDownload env fileId (calls s)
      in (r, advance d ((record_call (ProcessDownload fileId) s)\<lparr>calls := calls s + 1\<rparr>)))"

definition call_uploadToMinIO ::
  "env \<Rightarrow> string \<Rightarrow> string \<Rightarrow> nat \<Rightarrow> state \<Rightarrow> (js_error + string) \<times> state" where
  "call_uploadToMinIO env result jobId fileId s =
     (let (d, r) = uploadToMinIO env result jobId fileId
      in (r, advance d (record_call (UploadToMinIO jobId fileId) s)))"

definition call_createBundle ::
  "env \<Rightarrow> string \<Rightarrow> nat list \<Rightarrow> state \<Rightarrow> (js_error + string) \<times> state" where
  "call_createBundle env jobId fileIds s =
     (let (d, r) = createBundle env jobId fileIds
      in (r, advance d (record_call (CreateBundle jobId) s)))"

text \<open>The body of the \<open>try\<close> block of the worker's loop, for one file.\<close>

definition try_block :: "env \<Rightarrow> string \<Rightarrow> nat \<Rightarrow> state \<Rightarrow> (js_error + unit) \<times> state" where
  "try_block env jobId fileId s =
     (case call_processDownload env fileId s of
        (Inl e, s1) \<Rightarrow> (Inl e, s1)
      | (Inr result, s1) \<Rightarrow>
          (case call_uploadToMinIO env result jobId fileId s1 of
             (Inl e, s2) \<Rightarrow> (Inl e, s2)
           | (Inr url, s2) \<Rightarrow>
               updateJobProgress jobId
                 (updateFileStatus jobId fileId ''completed'' (Some (Val url)) None s2)))"

text \<open>One iteration of the loop: the \<open>catch\<close> marks the file failed and throws again.\<close>

definition process_file :: "env \<Rightarrow> string \<Rightarrow> nat \<Rightarrow> state \<Rightarrow> (js_error + unit) \<times> state" where
  "process_file env jobId fileId s =
     (case try_block env jobId fileId
             (updateFileStatus jobId fileId ''processing'' None None s) of
        (Inr u, s1) \<Rightarrow> (Inr (), s1)
      | (Inl err, s1) \<Rightarrow>
          (Inl err, updateFileStatus jobId fileId ''failed'' (Some Null) (Some (message err)) s1))"

fun worker_loop :: "env \<Rightarrow> string \<Rightarrow> nat list \<Rightarrow> state \<Rightarrow> (js_error + unit) \<times> state" where
  "worker_loop env jobId [] s = (Inr (), s)"
| "worker_loop env jobId (fileId # rest) s =
     (case process_file env jobId fileId s of
        (Inl err, s1) \<Rightarrow> (Inl err, s1)
      | (Inr u, s1) \<Rightarrow> worker_loop env jobId rest s1)"

record job_data =
  data_job_id :: string
  data_file_ids :: "nat list"

definition worker :: "env \<Rightarrow> job_data \<Rightarrow> state \<Rightarrow> (js_error + unit) \<times> state" where
  "worker env d s =
     (let jobId = data_job_id d; fids = data_file_ids d
      in case updateJobStatus jobId ''processing'' None s of
           (Inl e, s1) \<Rightarrow> (Inl e, s1)
         | (Inr u, s1) \<Rightarrow>
             (case worker_loop env jobId fids s1 of
                (Inl e, s2) \<Rightarrow> (Inl e, s2)
              | (Inr u2, s2) \<Rightarrow>
                  (case call_createBundle env jobId fids s2 of
                     (Inl e, s3) \<Rightarrow> (Inl e, s3)
                   | (Inr bundleUrl, s3) \<Rightarrow>
                       updateJobStatus jobId ''completed'' (Some bundleUrl) s3)))"

section \<open>Retries and the dead-letter queue\<close>

definition shouldRetry :: "ErrorType \<Rightarrow> bool" where
  "shouldRetry errorType = (errorType \<in> set [NETWORK_ERROR, TIMEOUT_ERROR, STORAGE_ERROR])"

definition sleep :: "nat \<Rightarrow> state \<Rightarrow> state" where
  "sleep delay s = advance delay (record_call (Sleep delay) s)"



record bull_job =
  data :: job_data
  attemptsMade :: nat

text \<open>The listener \<open>worker.on('failed', ...)\<close>, adding to the queue \<open>downloads:failed\<close>.\<close>

definition on_failed :: "bull_job \<Rightarrow> js_error \<Rightarrow> state \<Rightarrow> state" where
  "on_failed job err s =
     (if attemptsMade job \<ge> 3
      then s\<lparr>failedQueue := failedQueue s @
             [(''manual-review'',
               \<lparr>original_job_id = data_job_id (data job), dl_error = message err,
                attempts = attemptsMade job, failed_at = now s\<rparr>)]\<rparr>
      else s)"

text \<open>
  BullMQ itself is a library and not part of the sources. What it does with a queued job
  under the options \<open>attempts: 3, backoff: {type: 'exponential', delay: 2000}\<close> is written
  out from its documented contract: the processor runs; when it throws, \<open>attemptsMade\<close>
  grows by one and the worker emits \<open>failed\<close> with the job and the error; while
  \<open>attemptsMade\<close> is below \<open>attempts\<close> the job runs again after
  \<open>delay * 2 ^ (attemptsMade - 1)\<close> milliseconds.
\<close>

function run_job :: "env \<Rightarrow> bull_job \<Rightarrow> state \<Rightarrow> state" where
  "run_job env job s =
     (case worker env (data job) s of
        (Inr u, s1) \<Rightarrow> s1
      | (Inl err, s1) \<Rightarrow>
          (let job1 = job\<lparr>attemptsMade := attemptsMade job + 1\<rparr>;
               s2 = on_failed job1 err s1
           in if attemptsMade job1 < 3
              then run_job env job1 (advance (2000 * 2 ^ (attemptsMade job1 - 1)) s2)
              else s2))"
  by pat_completeness auto
termination
  by (relation "measure (\<lambda>(env, job, s). 3 - attemptsMade job)") auto

declare run_job.simps [simp del]

section \<open>Reading the history of calls\<close>

text \<open>
  The calls one iteration of the worker's loop makes for a file: the one sequence when
  nothing throws, and the three sequences that end in the \<open>catch\<close> block (the download,
  the upload or the progress update threw).
\<close>

definition success_calls :: "string \<Rightarrow> nat \<Rightarrow> event list" where
  "success_calls j f =
     [UpdateFileStatus j f ''processing'', ProcessDownload f, UploadToMinIO j f,
      UpdateFileStatus j f ''completed'', UpdateJobProgress j]"

definition failure_calls :: "string \<Rightarrow> nat \<Rightarrow> event list list" where
  "failure_calls j f =
     [[UpdateFileStatus j f ''processing'', ProcessDownload f, UpdateFileStatus j f ''failed''],
      [UpdateFileStatus j f ''processing'', ProcessDownload f, UploadToMinIO j f,
       UpdateFileStatus j f ''failed''],
      [UpdateFileStatus j f ''processing'', ProcessDownload f, UploadToMinIO j f,
       UpdateFileStatus j f ''completed'', UpdateJobProgress j, UpdateFileStatus j f ''failed'']]"

definition all_success :: "string \<Rightarrow> nat list \<Rightarrow> event list" where
  "all_success j fs = concat (map (success_calls j) fs)"

fun loop_calls :: "string \<Rightarrow> nat list \<Rightarrow> event list \<Rightarrow> bool" where
  "loop_calls j [] evs = (evs = [])"
| "loop_calls j (f # fs) evs =
     (evs \<in> set (failure_calls j f)
      \<or> (take 5 evs = success_calls j f \<and> loop_calls j fs (drop 5 evs)))"

text \<open>Whether a call is a transition of a file of the job to a given status.\<close>

fun is_transition :: "string \<Rightarrow> string \<Rightarrow> event \<Rightarrow> bool" where
  "is_transition j st (UpdateFileStatus j' f st') = (j' = j \<and> st' = st)"
| "is_transition j st e = False"

text \<open>
  What follows each terminal transition in a history: right after a transition to
  \<open>completed\<close> comes the progress update of the same job; after a transition to \<open>failed\<close>
  comes nothing.
\<close>

fun recomputed_after :: "event list \<Rightarrow> bool" where
  "recomputed_after [] = True"
| "recomputed_after (UpdateFileStatus j f st # rest) =
     (if st = ''completed'' then take 1 rest = [UpdateJobProgress j] \<and> recomputed_after rest
      else if st = ''failed'' then rest = []
      else recomputed_after rest)"
| "recomputed_after (e # rest) = recomputed_after rest"

text \<open>
  Whether a history runs the files \<open>fs\<close> one after the other in their order: \<open>finished\<close> lists
  the files completed so far, \<open>failed\<close> tells whether a file has failed. A file may enter
  \<open>processing\<close> only when no file has failed and the files completed so far are exactly
  the files before it in \<open>fs\<close>.
\<close>

fun sequential :: "nat list \<Rightarrow> nat list \<Rightarrow> bool \<Rightarrow> event list \<Rightarrow> bool" where
  "sequential fs finished failed [] = True"
| "sequential fs finished failed (UpdateFileStatus j f st # rest) =
     (if st = ''processing''
      then \<not> failed \<and> take (length finished + 1) fs = finished @ [f]
           \<and> sequential fs finished failed rest
      else if st = ''completed'' then sequential fs (finished @ [f]) failed rest
      else if st = ''failed'' then sequential fs finished True rest
      else sequential fs finished failed rest)"
| "sequential fs finished failed (e # rest) = sequential fs finished failed rest"

text \<open>The files a history sets to \<open>processing\<close>, in the order it does.\<close>

fun started :: "event list \<Rightarrow> nat list" where
  "started [] = []"
| "started (UpdateFileStatus j f st # rest) =
     (if st = ''processing'' then f # started rest else started rest)"
| "started (e # rest) = started rest"

text \<open>The files a history sets to the status \<open>st\<close>, and the files it downloads, in order.\<close>

fun files_set_to :: "string \<Rightarrow> event list \<Rightarrow> nat list" where
  "files_set_to st [] = []"
| "files_set_to st (UpdateFileStatus j f st' # rest) =
     (if st' = st then f # files_set_to st rest else files_set_to st rest)"
| "files_set_to st (e # rest) = files_set_to st rest"

fun downloaded :: "event list \<Rightarrow> nat list" where
  "downloaded [] = []"
| "downloaded (ProcessDownload f # rest) = f # downloaded rest"
| "downloaded (e # rest) = downloaded rest"

section \<open>Reading the history of job records\<close>

text \<open>
  The record under a key, expired or not; the job records stored between two states; and
  the rule of the data model that \<open>completed_at\<close> is set exactly when the status is
  \<open>completed\<close>.
\<close>

definition stored_job :: "state \<Rightarrow> string \<Rightarrow> job option" where
  "stored_job s key = map_option fst (jobs s key)"

definition written_since :: "state \<Rightarrow> state \<Rightarrow> (string \<times> job) list" where
  "written_since s s' = drop (length (job_history s)) (job_history s')"

definition job_inv :: "job \<Rightarrow> bool" where
  "job_inv v = ((completed_at v \<noteq> None) = (status v = ''completed''))"

text \<open>One half of that rule: a record whose status is \<open>completed\<close> has \<open>completed_at\<close>.\<close>

definition completed_with_time :: "job \<Rightarrow> bool" where
  "completed_with_time v = (status v = ''completed'' \<longrightarrow> completed_at v \<noteq> None)"




text \<open>
  \<open>inv_since n Q P key s\<close>: every job record stored after the first \<open>n\<close> satisfies \<open>P\<close>, and
  the record now under \<open>key\<close>, if there is one, satisfies \<open>Q\<close>.
\<close>

definition inv_since :: "nat \<Rightarrow> (job \<Rightarrow> bool) \<Rightarrow> (job \<Rightarrow> bool) \<Rightarrow> string \<Rightarrow> state \<Rightarrow> bool" where
  "inv_since n Q P key s =
     (n \<le> length (job_history s)
      \<and> list_all (\<lambda>w. P (snd w)) (drop n (job_history s))
      \<and> (case stored_job s key of None \<Rightarrow> True | Some v \<Rightarrow> Q v))"

section \<open>A submitted job\<close>

text \<open>
  The store as the API contract describes it right after \<open>POST /v1/download/initiate\<close> at
  time 0: the job record with status \<open>queued\<close> and progress 0, one \<open>queued\<close> record per
  file, each expiring after 24 hours. It is the input of the examples below.
\<close>

definition queued_job :: "string \<Rightarrow> nat list \<Rightarrow> job" where
  "queued_job jobId fileIds =
     \<lparr>job_id = jobId, status = ''queued'', file_ids = fileIds, created_at = 0, updated_at = 0,
      completed_at = None,
      progress = \<lparr>completed = 0, total = length fileIds, percentage = Some 0\<rparr>,
      bundle_url = None, error = None\<rparr>"

definition file_record :: "string \<Rightarrow> string \<Rightarrow> nat \<Rightarrow> file_status" where
  "file_record st jobId fileId =
     \<lparr>file_id = fileId, file_job_id = jobId, file_status = st, download_url = None,
      file_error = None, file_updated_at = 0, started_at = None, file_completed_at = None\<rparr>"

definition submitted :: "string \<Rightarrow> nat list \<Rightarrow> state" where
  "submitted jobId fileIds =
     \<lparr>jobs = [jobKey jobId \<mapsto> (queued_job jobId fileIds, 86400000)],
      files = map_of (map (\<lambda>f. (fileKey jobId f, (file_record ''queued'' jobId f, 86400000))) fileIds),
      now = 0, calls = 0, failedQueue = [], trace = [], job_history = []\<rparr>"

text \<open>The same store after a cancellation: the job is \<open>cancelled\<close>, its file still \<open>queued\<close>.\<close>

definition cancelled_store :: "string \<Rightarrow> nat list \<Rightarrow> state" where
  "cancelled_store jobId fileIds =
     (submitted jobId fileIds)
       \<lparr>jobs := [jobKey jobId \<mapsto> ((queued_job jobId fileIds)\<lparr>status := ''cancelled''\<rparr>, 86400000)]\<rparr>"

text \<open>
  Two environments: in \<open>env_ok\<close> every download takes 10 seconds and succeeds; in
  \<open>env_failing bad\<close> the downloads of the file \<open>bad\<close> fail with a network error on
  every call.
\<close>

definition env_ok :: env where
  "env_ok =
     \<lparr>processDownload = (\<lambda>fileId k. (10000, Inr ''data'')),
      uploadToMinIO = (\<lambda>result jobId fileId. (500, Inr (''https://minio.local/downloads/'' @ jobId))),
      createBundle = (\<lambda>jobId fileIds. (500, Inr (''https://minio.local/downloads/bundle''))),
      classifyError = (\<lambda>e. NETWORK_ERROR)\<rparr>"

definition env_failing :: "nat \<Rightarrow> env" where
  "env_failing bad =
     env_ok\<lparr>processDownload :=
       (\<lambda>fileId k. if fileId = bad then (10000, Inl (Error ''network error''))
                   else (10000, Inr ''data''))\<rparr>"


text \<open>As \<open>env_failing\<close>, the failing download taking \<open>d\<close> milliseconds.\<close>

definition env_failing_after :: "nat \<Rightarrow> nat \<Rightarrow> env" where
  "env_failing_after d bad =
     env_ok\<lparr>processDownload :=
       (\<lambda>fileId k. if fileId = bad then (d, Inl (Error ''network error''))
                   else (10000, Inr ''data''))\<rparr>"

text \<open>
  An environment in which every download of file 70001 fails, and so does the third
  download call overall, whatever its file.
\<close>

definition env_flaky :: env where
  "env_flaky =
     env_ok\<lparr>processDownload :=
       (\<lambda>fileId k. if fileId = 70001 \<or> k = 2 then (10000, Inl (Error ''network error''))
                   else (10000, Inr ''data''))\<rparr>"

definition empty_store :: state where
  "empty_store =
     \<lparr>jobs = Map.empty, files = Map.empty, now = 0, calls = 0, failedQueue = [], trace = [],
      job_history = []\<rparr>"

text \<open>
  The store after the job \<open>job_abc\<close> with the one file 70000 was submitted, ran once and
  completed (at time 11000).
\<close>

definition completed_store :: state where
  "completed_store =
     run_job env_ok
       \<lparr>data = \<lparr>data_job_id = ''job_abc'', data_file_ids = [70000]\<rparr>, attemptsMade = 0\<rparr>
       (submitted ''job_abc'' [70000])"

text \<open>
  Two more environments. In \<open>env_fails_once\<close> the first download call fails, with an error
  classified as an invalid file (not retryable), and every later call succeeds. In
  \<open>env_fails_later\<close> the first download call succeeds and every later one fails.
\<close>

definition env_fails_once :: env where
  "env_fails_once =
     env_ok\<lparr>processDownload :=
              (\<lambda>fileId k. if k = 0 then (10000, Inl (Error ''invalid file''))
                          else (10000, Inr ''data'')),
            classifyError := (\<lambda>e. INVALID_FILE)\<rparr>"

definition env_fails_later :: env where
  "env_fails_later =
     env_ok\<lparr>processDownload :=
       (\<lambda>fileId k. if k = 0 then (10000, Inr ''data'')
                   else (10000, Inl (Error ''network error'')))\<rparr>"

section \<open>Basic facts about the store\<close>

lemma record_call_simps [simp]:
  "jobs (record_call e s) = jobs s"
  "files (record_call e s) = files s"
  "now (record_call e s) = now s"
  "calls (record_call e s) = calls s"
  "failedQueue (record_call e s) = failedQueue s"
  "job_history (record_call e s) = job_history s"
  "trace (record_call e s) = trace s @ [e]"
  by (simp_all add: record_call_def)

lemma advance_simps [simp]:
  "jobs (advance d s) = jobs s"
  "files (advance d s) = files s"
  "now (advance d s) = now s + d"
  "calls (advance d s) = calls s"
  "failedQueue (advance d s) = failedQueue s"
  "job_history (advance d s) = job_history s"
  "trace (advance d s) = trace s"
  by (simp_all add: advance_def)

lemma redis_get_job_record_call [simp]:
  "redis_get_job (record_call e s) key = redis_get_job s key"
  by (simp add: redis_get_job_def)

lemma redis_get_file_record_call [simp]:
  "redis_get_file (record_call e s) key = redis_get_file s key"
  by (simp add: redis_get_file_def)

lemma redis_setex_job_simps [simp]:
  "jobs (redis_setex_job key n v s) = (jobs s)(key \<mapsto> (v, now s + n * 1000))"
  "files (redis_setex_job key n v s) = files s"
  "now (redis_setex_job key n v s) = now s"
  "calls (redis_setex_job key n v s) = calls s"
  "failedQueue (redis_setex_job key n v s) = failedQueue s"
  "job_history (redis_setex_job key n v s) = job_history s @ [(key, v)]"
  "trace (redis_setex_job key n v s) = trace s"
  by (simp_all add: redis_setex_job_def)

lemma redis_setex_file_simps [simp]:
  "jobs (redis_setex_file key n v s) = jobs s"
  "files (redis_setex_file key n v s) = (files s)(key \<mapsto> (v, now s + n * 1000))"
  "now (redis_setex_file key n v s) = now s"
  "calls (redis_setex_file key n v s) = calls s"
  "failedQueue (redis_setex_file key n v s) = failedQueue s"
  "job_history (redis_setex_file key n v s) = job_history s"
  "trace (redis_setex_file key n v s) = trace s"
  by (simp_all add: redis_setex_file_def)

lemma redis_get_job_dead:
  assumes "jobs s key = None \<or> (\<exists>v e. jobs s key = Some (v, e) \<and> e \<le> now s)"
  shows "redis_get_job s key = None"
  using assms by (auto simp add: redis_get_job_def live_def)

subsection \<open>Keys of different files differ\<close>

lemma digit_char_inj:
  assumes "a < 10" "b < 10" "digit_char a = digit_char b"
  shows "a = b"
proof -
  have d: "distinct ''0123456789''" by simp
  have l: "length ''0123456789'' = 10" by simp
  from assms show ?thesis
    unfolding digit_char_def using nth_eq_iff_index_eq[OF d, of a b] l by simp
qed

lemma string_of_nat_nonempty: "string_of_nat n \<noteq> []"
  by (subst string_of_nat.simps) simp

lemma string_of_nat_inj: "string_of_nat a = string_of_nat b \<Longrightarrow> a = b"
proof (induction a arbitrary: b rule: string_of_nat.induct)
  case (1 n)
  show ?case
  proof (cases "n < 10")
    case small: True
    show ?thesis
    proof (cases "b < 10")
      case True
      then show ?thesis
        using "1.prems" small digit_char_inj[of n b]
        by (simp add: string_of_nat.simps[of n] string_of_nat.simps[of b])
    next
      case False
      then show ?thesis
        using "1.prems" small string_of_nat_nonempty[of "b div 10"]
        by (simp add: string_of_nat.simps[of n] string_of_nat.simps[of b])
    qed
  next
    case big: False
    show ?thesis
    proof (cases "b < 10")
      case True
      then show ?thesis
        using "1.prems" big string_of_nat_nonempty[of "n div 10"]
        by (simp add: string_of_nat.simps[of n] string_of_nat.simps[of b])
    next
      case False
      from "1.prems" big False
      have eq: "string_of_nat (n div 10) = string_of_nat (b div 10)"
        and dg: "digit_char (n mod 10) = digit_char (b mod 10)"
        by (simp_all add: string_of_nat.simps[of n] string_of_nat.simps[of b])
      have "n div 10 = b div 10" using "1.IH"[OF big eq] .
      moreover have "n mod 10 = b mod 10" using digit_char_inj[OF _ _ dg] by simp
      ultimately show ?thesis by (metis div_mult_mod_eq)
    qed
  qed
qed

lemma fileKey_inj [simp]: "fileKey j f = fileKey j f' \<longleftrightarrow> f = f'"
  by (auto simp add: fileKey_def dest: string_of_nat_inj)

lemma string_of_nat_examples [simp]:
  "string_of_nat 70000 = ''70000''"
  "string_of_nat 70001 = ''70001''"
  "string_of_nat 70002 = ''70002''"
  by (simp_all add: string_of_nat.simps digit_char_def)

subsection \<open>Evaluating a run on a given store\<close>

lemmas run_defs =
  worker_def process_file_def try_block_def call_processDownload_def call_uploadToMinIO_def
  call_createBundle_def updateJobStatus_def updateFileStatus_def updateJobProgress_def
  redis_get_job_def redis_get_file_def redis_setex_job_def redis_setex_file_def live_def
  record_call_def advance_def emitted_def jobKey_def fileKey_def Let_def

lemmas queue_defs = run_job.simps on_failed_def stored_job_def written_since_def

lemmas example_defs =
  submitted_def cancelled_store_def queued_job_def file_record_def env_ok_def env_failing_def
  empty_store_def env_failing_after_def env_flaky_def

section \<open>The helper functions\<close>

text \<open>
  Claim C10. \<open>updateJobStatus\<close> and \<open>updateJobProgress\<close> need the job record to be in
  the store: for a job id that is unknown or already expired both end with a TypeError,
  not with a NotFound result, and neither writes a record.
\<close>

theorem updateJob_requires_record:
  assumes "jobs s (jobKey jobId) = None
             \<or> (\<exists>v e. jobs s (jobKey jobId) = Some (v, e) \<and> e \<le> now s)"
  shows "(\<exists>m. fst (updateJobStatus jobId st bundleUrl s) = Inl (TypeError m))
       \<and> jobs (snd (updateJobStatus jobId st bundleUrl s)) = jobs s
       \<and> files (snd (updateJobStatus jobId st bundleUrl s)) = files s
       \<and> (\<exists>m. fst (updateJobProgress jobId s) = Inl (TypeError m))
       \<and> jobs (snd (updateJobProgress jobId s)) = jobs s
       \<and> files (snd (updateJobProgress jobId s)) = files s"
proof -
  have dead: "redis_get_job s (jobKey jobId) = None"
    using assms by (rule redis_get_job_dead)
  show ?thesis
    by (simp add: updateJobStatus_def updateJobProgress_def Let_def dead)
qed

theorem updateJob_requires_record_witness:
  "jobs empty_store (jobKey ''job_unknown'') = None
   \<and> fst (updateJobStatus ''job_unknown'' ''processing'' None empty_store)
       = Inl (TypeError ''Cannot set properties of null'')
   \<and> jobs (snd (updateJobStatus ''job_unknown'' ''processing'' None empty_store)) = jobs empty_store
   \<and> fst (updateJobProgress ''job_unknown'' empty_store)
       = Inl (TypeError ''Cannot read properties of null'')
   \<and> jobs (snd (updateJobProgress ''job_unknown'' empty_store)) = jobs empty_store
   \<and> jobs (advance 86400000 (submitted ''job_abc'' [70000])) (jobKey ''job_abc'')
       = Some (queued_job ''job_abc'' [70000], 86400000)
   \<and> now (advance 86400000 (submitted ''job_abc'' [70000])) = 86400000
   \<and> fst (updateJobStatus ''job_abc'' ''processing'' None
              (advance 86400000 (submitted ''job_abc'' [70000])))
       = Inl (TypeError ''Cannot set properties of null'')
   \<and> jobs (snd (updateJobStatus ''job_abc'' ''processing'' None
                    (advance 86400000 (submitted ''job_abc'' [70000]))))
       = jobs (advance 86400000 (submitted ''job_abc'' [70000]))
   \<and> fst (updateJobProgress ''job_abc'' (advance 86400000 (submitted ''job_abc'' [70000])))
       = Inl (TypeError ''Cannot read properties of null'')"
proof -
  let ?t = "advance 86400000 (submitted ''job_abc'' [70000])"
  have h: "jobs empty_store (jobKey ''job_unknown'') = None"
    by (simp add: empty_store_def)
  have dead: "redis_get_job empty_store (jobKey ''job_unknown'') = None"
    by (simp add: redis_get_job_def live_def h)
  have x: "jobs ?t (jobKey ''job_abc'') = Some (queued_job ''job_abc'' [70000], 86400000)"
    "now ?t = 86400000"
    by (simp_all add: submitted_def)
  then have h2: "jobs ?t (jobKey ''job_abc'') = None
                 \<or> (\<exists>v e. jobs ?t (jobKey ''job_abc'') = Some (v, e) \<and> e \<le> now ?t)"
    by simp
  have dead2: "redis_get_job ?t (jobKey ''job_abc'') = None"
    using x by (simp add: redis_get_job_def live_def)
  from updateJob_requires_record [of empty_store "''job_unknown''" "''processing''" None] h
    updateJob_requires_record [OF h2, of "''processing''" None] x
  show ?thesis
    by (simp add: updateJobStatus_def updateJobProgress_def Let_def dead dead2)
qed

text \<open>
  Claim C9. \<open>updateFileStatus\<close> stores a freshly built record that holds only what the call
  was given, whatever was stored before; a task marked \<open>completed\<close> has no \<open>started_at\<close>
  any more, although the record written when it entered \<open>processing\<close> had one.
\<close>

theorem updateFileStatus_replaces_record:
  "files (updateFileStatus jobId fileId st url err s) (fileKey jobId fileId) =
     Some (\<lparr>file_id = fileId, file_job_id = jobId, file_status = st, download_url = url,
            file_error = err, file_updated_at = now s,
            started_at = (if st = ''processing'' then Some (now s) else None),
            file_completed_at =
              (if st = ''processing'' then None
               else if st = ''completed'' then Some (now s) else None)\<rparr>,
           now s + 86400000)
   \<and> map_option (started_at \<circ> fst)
        (files (updateFileStatus jobId fileId ''processing'' None None s) (fileKey jobId fileId))
       = Some (Some (now s))
   \<and> map_option (started_at \<circ> fst)
        (files (updateFileStatus jobId fileId ''completed'' url None
                  (advance d (updateFileStatus jobId fileId ''processing'' None None s)))
           (fileKey jobId fileId))
       = Some None"
  by (simp add: updateFileStatus_def Let_def)

text \<open>
  Claim C6, as the code has it. Every update stores the record again with \<open>setex key 86400\<close>:
  after a status or progress update of a job, and after every status update of a file,
  the record expires 24 hours after that update, so each update moves the expiry on. A
  record whose expiry has passed is gone for every reader, whatever its status.
\<close>

theorem update_resets_expiry:
  "(fst (updateJobStatus jobId st b s) = Inr () \<longrightarrow>
      map_option snd (jobs (snd (updateJobStatus jobId st b s)) (jobKey jobId))
        = Some (now s + 86400000))
   \<and> (fst (updateJobProgress jobId s) = Inr () \<longrightarrow>
      map_option snd (jobs (snd (updateJobProgress jobId s)) (jobKey jobId))
        = Some (now s + 86400000))
   \<and> map_option snd (files (updateFileStatus jobId fileId st url err s) (fileKey jobId fileId))
        = Some (now s + 86400000)
   \<and> (\<forall>key v e. jobs s key = Some (v, e) \<and> e \<le> now s \<longrightarrow> redis_get_job s key = None)
   \<and> (\<forall>key v e. files s key = Some (v, e) \<and> e \<le> now s \<longrightarrow> redis_get_file s key = None)"
  by (auto simp add: updateJobStatus_def updateJobProgress_def updateFileStatus_def Let_def
      redis_get_job_def redis_get_file_def live_def split: option.splits sum.splits)

theorem update_resets_expiry_witness:
  "fst (updateJobStatus ''job_abc'' ''processing'' None (advance 1000 (submitted ''job_abc'' [70000])))
     = Inr ()
   \<and> map_option snd
        (jobs (snd (updateJobStatus ''job_abc'' ''processing'' None
                      (advance 1000 (submitted ''job_abc'' [70000])))) (jobKey ''job_abc''))
     = Some (1000 + 86400000)
   \<and> fst (updateJobProgress ''job_abc'' (advance 1000 (submitted ''job_abc'' [70000]))) = Inr ()
   \<and> map_option snd
        (jobs (snd (updateJobProgress ''job_abc'' (advance 1000 (submitted ''job_abc'' [70000]))))
           (jobKey ''job_abc''))
     = Some (1000 + 86400000)
   \<and> jobs (advance 86400000 (submitted ''job_abc'' [70000])) (jobKey ''job_abc'')
       = Some (queued_job ''job_abc'' [70000], 86400000)
   \<and> redis_get_job (advance 86400000 (submitted ''job_abc'' [70000])) (jobKey ''job_abc'') = None
   \<and> files (advance 86400000 (submitted ''job_abc'' [70000])) (fileKey ''job_abc'' 70000)
       = Some (file_record ''queued'' ''job_abc'' 70000, 86400000)
   \<and> redis_get_file (advance 86400000 (submitted ''job_abc'' [70000])) (fileKey ''job_abc'' 70000)
       = None"
proof -
  let ?s = "advance 1000 (submitted ''job_abc'' [70000])"
  let ?t = "advance 86400000 (submitted ''job_abc'' [70000])"
  have a: "fst (updateJobStatus ''job_abc'' ''processing'' None ?s) = Inr ()"
    by (simp add: submitted_def updateJobStatus_def redis_get_job_def live_def Let_def)
  have b: "fst (updateJobProgress ''job_abc'' ?s) = Inr ()"
    by (simp add: submitted_def updateJobProgress_def redis_get_job_def redis_get_file_def
        live_def Let_def queued_job_def file_record_def)
  have c: "jobs ?t (jobKey ''job_abc'') = Some (queued_job ''job_abc'' [70000], 86400000)"
    "files ?t (fileKey ''job_abc'' 70000) = Some (file_record ''queued'' ''job_abc'' 70000, 86400000)"
    by (simp_all add: submitted_def)
  have n: "now ?s = 1000" "now ?t = 86400000"
    by (simp_all add: submitted_def)
  from update_resets_expiry [of "''job_abc''" "''processing''" None ?s]
    update_resets_expiry [of _ _ _ ?t] a b c n
  show ?thesis by auto
qed

text \<open>
  The claim as the specification states it, that an update never extends the expiry set at
  creation, fails: a job and its file created at time 0 expire at 86400000; updated one
  second later they expire at 86401000.
\<close>

theorem update_extends_expiry_counterexample:
  "map_option snd (jobs (advance 1000 (submitted ''job_abc'' [70000])) (jobKey ''job_abc''))
     = Some 86400000
   \<and> map_option snd
        (jobs (snd (updateJobStatus ''job_abc'' ''processing'' None
                      (advance 1000 (submitted ''job_abc'' [70000])))) (jobKey ''job_abc''))
     = Some 86401000
   \<and> map_option snd
        (jobs (snd (updateJobProgress ''job_abc'' (advance 1000 (submitted ''job_abc'' [70000]))))
           (jobKey ''job_abc''))
     = Some 86401000
   \<and> map_option snd
        (files (advance 1000 (submitted ''job_abc'' [70000])) (fileKey ''job_abc'' 70000))
     = Some 86400000
   \<and> map_option snd
        (files (updateFileStatus ''job_abc'' 70000 ''processing'' None None
                  (advance 1000 (submitted ''job_abc'' [70000]))) (fileKey ''job_abc'' 70000))
     = Some 86401000"
  by (simp add: submitted_def updateJobStatus_def updateJobProgress_def updateFileStatus_def
      redis_get_job_def redis_get_file_def live_def queued_job_def file_record_def Let_def
      jobKey_def fileKey_def)

section \<open>The calls of a run\<close>

lemma emitted_append [simp]:
  "trace s' = trace s @ evs \<Longrightarrow> emitted s s' = evs"
  by (simp add: emitted_def)

lemma emitted_trans:
  "trace s1 = trace s @ a \<Longrightarrow> trace s2 = trace s1 @ b \<Longrightarrow> emitted s s2 = a @ b"
  by (simp add: emitted_def)

lemma updateJobStatus_trace [simp]:
  "trace (snd (updateJobStatus jobId st b s)) = trace s @ [UpdateJobStatus jobId st]"
  by (simp add: updateJobStatus_def Let_def split: option.splits)

lemma updateFileStatus_trace [simp]:
  "trace (updateFileStatus jobId fileId st url err s) = trace s @ [UpdateFileStatus jobId fileId st]"
  by (simp add: updateFileStatus_def Let_def)

lemma updateJobProgress_trace [simp]:
  "trace (snd (updateJobProgress jobId s)) = trace s @ [UpdateJobProgress jobId]"
  by (simp add: updateJobProgress_def Let_def split: option.splits sum.splits)

lemma call_processDownload_trace [simp]:
  "trace (snd (call_processDownload env fileId s)) = trace s @ [ProcessDownload fileId]"
  by (simp add: call_processDownload_def split: prod.splits)

lemma call_uploadToMinIO_trace [simp]:
  "trace (snd (call_uploadToMinIO env r jobId fileId s)) = trace s @ [UploadToMinIO jobId fileId]"
  by (simp add: call_uploadToMinIO_def split: prod.splits)

lemma call_createBundle_trace [simp]:
  "trace (snd (call_createBundle env jobId fids s)) = trace s @ [CreateBundle jobId]"
  by (simp add: call_createBundle_def split: prod.splits)

text \<open>
  The calls of one iteration of the worker's loop.
\<close>

lemma try_block_trace:
  "(fst (try_block env j f s) = Inr ()
      \<and> trace (snd (try_block env j f s)) =
          trace s @ [ProcessDownload f, UploadToMinIO j f, UpdateFileStatus j f ''completed'',
                     UpdateJobProgress j])
   \<or> ((\<exists>e. fst (try_block env j f s) = Inl e)
      \<and> (trace (snd (try_block env j f s)) = trace s @ [ProcessDownload f]
         \<or> trace (snd (try_block env j f s)) = trace s @ [ProcessDownload f, UploadToMinIO j f]
         \<or> trace (snd (try_block env j f s)) =
              trace s @ [ProcessDownload f, UploadToMinIO j f, UpdateFileStatus j f ''completed'',
                         UpdateJobProgress j]))"
proof (cases "call_processDownload env f s")
  case (Pair r1 s1)
  have t1: "trace s1 = trace s @ [ProcessDownload f]"
    using call_processDownload_trace[of env f s] Pair by simp
  show ?thesis
  proof (cases r1)
    case (Inl e)
    then show ?thesis using Pair t1 by (simp add: try_block_def)
  next
    case (Inr result)
    show ?thesis
    proof (cases "call_uploadToMinIO env result j f s1")
      case up: (Pair r2 s2)
      have t2: "trace s2 = trace s1 @ [UploadToMinIO j f]"
        using call_uploadToMinIO_trace[of env result j f s1] up by simp
      show ?thesis
      proof (cases r2)
        case (Inl e)
        then show ?thesis using Pair Inr up t1 t2 by (simp add: try_block_def)
      next
        case url: (Inr url)
        let ?s3 = "updateFileStatus j f ''completed'' (Some (Val url)) None s2"
        have eq: "try_block env j f s = updateJobProgress j ?s3"
          using Pair Inr up url by (simp add: try_block_def)
        have t4: "trace (snd (updateJobProgress j ?s3)) =
                    trace s @ [ProcessDownload f, UploadToMinIO j f,
                               UpdateFileStatus j f ''completed'', UpdateJobProgress j]"
          by (simp add: t1 t2)
        show ?thesis
        proof (cases "fst (updateJobProgress j ?s3)")
          case (Inl e)
          then show ?thesis using eq t4 by simp
        next
          case (Inr u)
          then show ?thesis using eq t4 by simp
        qed
      qed
    qed
  qed
qed

lemma process_file_trace:
  "(fst (process_file env j f s) = Inr ()
      \<and> trace (snd (process_file env j f s)) = trace s @ success_calls j f)
   \<or> ((\<exists>e. fst (process_file env j f s) = Inl e)
      \<and> (\<exists>evs \<in> set (failure_calls j f). trace (snd (process_file env j f s)) = trace s @ evs))"
proof -
  let ?s1 = "updateFileStatus j f ''processing'' None None s"
  obtain r s2 where tb: "try_block env j f ?s1 = (r, s2)" by (cases "try_block env j f ?s1")
  from try_block_trace[of env j f ?s1] tb
  show ?thesis
    by (cases r) (auto simp add: process_file_def success_calls_def failure_calls_def)
qed

lemma process_file_started:
  "\<exists>evs. trace (snd (process_file env j f s)) = trace s @ evs \<and> started evs = [f]"
  using process_file_trace[of env j f s]
  by (auto simp add: success_calls_def failure_calls_def)

text \<open>
  Claim C2, as the code has it. The worker has no claim step: \<open>updateFileStatus\<close> with
  \<open>processing\<close> stores that status whatever the task's and the job's current status are,
  and an iteration of the loop starts with it and goes on to the download, whatever the
  store holds.
\<close>

theorem processing_written_unconditionally:
  "map_option (file_status \<circ> fst)
     (files (updateFileStatus jobId fileId ''processing'' None None s) (fileKey jobId fileId))
     = Some ''processing''
   \<and> take 2 (emitted s (snd (process_file env jobId fileId s)))
       = [UpdateFileStatus jobId fileId ''processing'', ProcessDownload fileId]"
proof -
  have "map_option (file_status \<circ> fst)
     (files (updateFileStatus jobId fileId ''processing'' None None s) (fileKey jobId fileId))
     = Some ''processing''"
    by (simp add: updateFileStatus_def Let_def)
  moreover have "take 2 (emitted s (snd (process_file env jobId fileId s)))
       = [UpdateFileStatus jobId fileId ''processing'', ProcessDownload fileId]"
    using process_file_trace[of env jobId fileId s]
    by (auto simp add: success_calls_def failure_calls_def)
  ultimately show ?thesis by blast
qed

text \<open>
  The claim as the specification states it fails: a task is set to \<open>processing\<close> while its
  job is \<open>cancelled\<close>, a task that is \<open>completed\<close> is set back to \<open>processing\<close>, the worker
  run on a cancelled job starts the download of its file, and when a job is retried its
  first file, \<open>completed\<close> in the first run, enters \<open>processing\<close> again in the second.
\<close>

theorem unconditional_processing_counterexample:
  "map_option (status \<circ> fst) (jobs (cancelled_store ''job_abc'' [70000]) (jobKey ''job_abc''))
     = Some ''cancelled''
   \<and> map_option (file_status \<circ> fst)
        (files (updateFileStatus ''job_abc'' 70000 ''processing'' None None
                  (cancelled_store ''job_abc'' [70000])) (fileKey ''job_abc'' 70000))
     = Some ''processing''
   \<and> map_option (file_status \<circ> fst)
        (files (updateFileStatus ''job_abc'' 70000 ''completed'' None None
                  (submitted ''job_abc'' [70000])) (fileKey ''job_abc'' 70000))
     = Some ''completed''
   \<and> map_option (file_status \<circ> fst)
        (files (updateFileStatus ''job_abc'' 70000 ''processing'' None None
                 (updateFileStatus ''job_abc'' 70000 ''completed'' None None
                    (submitted ''job_abc'' [70000]))) (fileKey ''job_abc'' 70000))
     = Some ''processing''
   \<and> take 3 (emitted (cancelled_store ''job_abc'' [70000])
        (snd (worker env_ok \<lparr>data_job_id = ''job_abc'', data_file_ids = [70000]\<rparr>
                (cancelled_store ''job_abc'' [70000]))))
     = [UpdateJobStatus ''job_abc'' ''processing'',
        UpdateFileStatus ''job_abc'' 70000 ''processing'', ProcessDownload 70000]
   \<and> take 2 (drop 4
        (emitted (submitted ''job_abc'' [70000, 70001])
           (run_job (env_failing 70001)
              \<lparr>data = \<lparr>data_job_id = ''job_abc'', data_file_ids = [70000, 70001]\<rparr>,
               attemptsMade = 0\<rparr>
              (submitted ''job_abc'' [70000, 70001]))))
     = [UpdateFileStatus ''job_abc'' 70000 ''completed'', UpdateJobProgress ''job_abc'']
   \<and> take 2 (drop 9
        (emitted (submitted ''job_abc'' [70000, 70001])
           (run_job (env_failing 70001)
              \<lparr>data = \<lparr>data_job_id = ''job_abc'', data_file_ids = [70000, 70001]\<rparr>,
               attemptsMade = 0\<rparr>
              (submitted ''job_abc'' [70000, 70001]))))
     = [UpdateJobStatus ''job_abc'' ''processing'',
        UpdateFileStatus ''job_abc'' 70000 ''processing'']"
  by (simp add: queue_defs run_defs example_defs)

subsection \<open>The loop over the files\<close>

lemma all_success_simps [simp]:
  "all_success j [] = []"
  "all_success j (f # fs) = success_calls j f @ all_success j fs"
  by (simp_all add: all_success_def)

lemma worker_loop_trace:
  "\<exists>evs. trace (snd (worker_loop env j fs s)) = trace s @ evs \<and> loop_calls j fs evs
         \<and> (fst (worker_loop env j fs s) = Inr () \<longrightarrow> evs = concat (map (success_calls j) fs))"
proof (induction fs arbitrary: s)
  case Nil
  then show ?case by simp
next
  case (Cons f fs)
  obtain r s1 where pf: "process_file env j f s = (r, s1)" by (cases "process_file env j f s")
  from process_file_trace[of env j f s] pf
  consider (ok) "r = Inr ()" "trace s1 = trace s @ success_calls j f"
    | (bad) e evs where "r = Inl e" "evs \<in> set (failure_calls j f)" "trace s1 = trace s @ evs"
    by auto
  then show ?case
  proof cases
    case ok
    from Cons.IH[of s1] obtain evs where
      evs: "trace (snd (worker_loop env j fs s1)) = trace s1 @ evs" "loop_calls j fs evs"
        "fst (worker_loop env j fs s1) = Inr () \<longrightarrow> evs = concat (map (success_calls j) fs)"
      by blast
    have len: "length (success_calls j f) = 5" by (simp add: success_calls_def)
    have "trace (snd (worker_loop env j (f # fs) s)) = trace s @ (success_calls j f @ evs)"
      using pf ok evs by simp
    moreover have "loop_calls j (f # fs) (success_calls j f @ evs)"
      using evs(2) len by simp
    moreover have "fst (worker_loop env j (f # fs) s) = Inr () \<longrightarrow>
        success_calls j f @ evs = concat (map (success_calls j) (f # fs))"
      using pf ok evs(3) by simp
    ultimately show ?thesis by blast
  next
    case bad
    have "trace (snd (worker_loop env j (f # fs) s)) = trace s @ evs"
      using pf bad by simp
    moreover have "loop_calls j (f # fs) evs" using bad(2) by simp
    moreover have "fst (worker_loop env j (f # fs) s) \<noteq> Inr ()" using pf bad by simp
    ultimately show ?thesis by blast
  qed
qed

lemma loop_calls_cases:
  assumes "loop_calls j (f # fs) evs"
  obtains (bad) "evs \<in> set (failure_calls j f)"
  | (ok) rest where "evs = success_calls j f @ rest" "loop_calls j fs rest"
proof -
  from assms consider "evs \<in> set (failure_calls j f)"
    | "take 5 evs = success_calls j f" "loop_calls j fs (drop 5 evs)"
    by auto
  then show thesis
  proof cases
    case 1
    then show ?thesis by (rule bad)
  next
    case 2
    have "evs = success_calls j f @ drop 5 evs"
      using 2(1) append_take_drop_id[of 5 evs] by simp
    then show ?thesis using 2(2) by (rule ok)
  qed
qed

lemma recomputed_after_loop: "loop_calls j fs evs \<Longrightarrow> recomputed_after evs"
proof (induction fs arbitrary: evs)
  case Nil
  then show ?case by simp
next
  case (Cons f fs)
  from Cons.prems show ?case
  proof (cases rule: loop_calls_cases)
    case bad
    then show ?thesis by (auto simp add: failure_calls_def)
  next
    case (ok rest)
    then show ?thesis using Cons.IH[of rest] by (simp add: success_calls_def)
  qed
qed

lemma recomputed_after_all_success:
  "recomputed_after t \<Longrightarrow> recomputed_after (all_success j fs @ t)"
  by (induction fs) (simp_all add: success_calls_def)

lemma sequential_loop: "loop_calls j fs evs \<Longrightarrow> sequential (pre @ fs) pre False evs"
proof (induction fs arbitrary: evs pre)
  case Nil
  then show ?case by simp
next
  case (Cons f fs)
  from Cons.prems show ?case
  proof (cases rule: loop_calls_cases)
    case bad
    then show ?thesis by (auto simp add: failure_calls_def)
  next
    case (ok rest)
    from Cons.IH[OF ok(2), of "pre @ [f]"]
    have "sequential (pre @ f # fs) (pre @ [f]) False rest" by simp
    then show ?thesis using ok(1) by (simp add: success_calls_def)
  qed
qed

lemma sequential_all_success:
  "sequential (pre @ fs) (pre @ fs) False t \<Longrightarrow> sequential (pre @ fs) pre False (all_success j fs @ t)"
proof (induction fs arbitrary: pre)
  case Nil
  then show ?case by simp
next
  case (Cons f fs)
  from Cons.IH[of "pre @ [f]"] Cons.prems
  have "sequential (pre @ f # fs) (pre @ [f]) False (all_success j fs @ t)" by simp
  then show ?case by (simp add: success_calls_def)
qed

lemma started_append: "started (a @ b) = started a @ started b"
  by (induction a rule: started.induct) simp_all

lemma started_loop: "loop_calls j fs evs \<Longrightarrow> started evs = take (length (started evs)) fs"
proof (induction fs arbitrary: evs)
  case Nil
  then show ?case by simp
next
  case (Cons f fs)
  from Cons.prems show ?case
  proof (cases rule: loop_calls_cases)
    case bad
    then show ?thesis by (auto simp add: failure_calls_def)
  next
    case (ok rest)
    then show ?thesis using Cons.IH[of rest] by (simp add: success_calls_def)
  qed
qed

lemma started_all_success: "started t = [] \<Longrightarrow> started (all_success j fs @ t) = fs"
  by (induction fs) (simp_all add: success_calls_def)

lemma count_loop:
  "loop_calls j fs evs \<Longrightarrow>
     length (filter (\<lambda>e. e = UpdateJobProgress j) evs)
       = length (filter (is_transition j ''completed'') evs)"
proof (induction fs arbitrary: evs)
  case Nil
  then show ?case by simp
next
  case (Cons f fs)
  from Cons.prems show ?case
  proof (cases rule: loop_calls_cases)
    case bad
    then show ?thesis by (auto simp add: failure_calls_def)
  next
    case (ok rest)
    then show ?thesis using Cons.IH[of rest] by (simp add: success_calls_def)
  qed
qed

lemma count_all_success:
  "length (filter (\<lambda>e. e = UpdateJobProgress j) (all_success j fs)) = length fs"
  "length (filter (is_transition j ''completed'') (all_success j fs)) = length fs"
  by (induction fs) (simp_all add: success_calls_def)

subsection \<open>One run of the worker\<close>

lemma worker_trace:
  "\<exists>evs. trace (snd (worker env d s)) =
            trace s @ UpdateJobStatus (data_job_id d) ''processing'' # evs
     \<and> (evs = []
        \<or> ((\<exists>e. fst (worker env d s) = Inl e) \<and> loop_calls (data_job_id d) (data_file_ids d) evs)
        \<or> evs = all_success (data_job_id d) (data_file_ids d) @ [CreateBundle (data_job_id d)]
        \<or> evs = all_success (data_job_id d) (data_file_ids d) @
              [CreateBundle (data_job_id d), UpdateJobStatus (data_job_id d) ''completed''])"
proof -
  let ?j = "data_job_id d" and ?fs = "data_file_ids d"
  obtain r1 s1 where u: "updateJobStatus ?j ''processing'' None s = (r1, s1)"
    by (cases "updateJobStatus ?j ''processing'' None s")
  have t1: "trace s1 = trace s @ [UpdateJobStatus ?j ''processing'']"
    using updateJobStatus_trace[of ?j "''processing''" None s] u by simp
  show ?thesis
  proof (cases r1)
    case (Inl e)
    then show ?thesis using u t1 by (simp add: worker_def Let_def)
  next
    case (Inr x)
    obtain r2 s2 where l: "worker_loop env ?j ?fs s1 = (r2, s2)"
      by (cases "worker_loop env ?j ?fs s1")
    from worker_loop_trace[of env ?j ?fs s1] l obtain evs where
      evs: "trace s2 = trace s1 @ evs" "loop_calls ?j ?fs evs"
        "r2 = Inr () \<longrightarrow> evs = all_success ?j ?fs"
      by (auto simp add: all_success_def)
    show ?thesis
    proof (cases r2)
      case (Inl e)
      then show ?thesis using u Inr l t1 evs by (simp add: worker_def Let_def)
    next
      case ok: (Inr y)
      then have all: "evs = all_success ?j ?fs" using evs(3) by simp
      obtain r3 s3 where c: "call_createBundle env ?j ?fs s2 = (r3, s3)"
        by (cases "call_createBundle env ?j ?fs s2")
      have t3: "trace s3 = trace s2 @ [CreateBundle ?j]"
        using call_createBundle_trace[of env ?j ?fs s2] c by simp
      show ?thesis
      proof (cases r3)
        case (Inl e)
        then show ?thesis using u Inr l ok c t1 evs(1) all t3 by (simp add: worker_def Let_def)
      next
        case (Inr url)
        have "worker env d s = updateJobStatus ?j ''completed'' (Some url) s3"
          using u \<open>r1 = Inr x\<close> l ok c Inr by (simp add: worker_def Let_def)
        then show ?thesis using t1 evs(1) all t3 by simp
      qed
    qed
  qed
qed

lemma worker_emitted_cases:
  obtains (stopped) "emitted s (snd (worker env d s)) = [UpdateJobStatus (data_job_id d) ''processing'']"
  | (failed) evs where
      "emitted s (snd (worker env d s)) = UpdateJobStatus (data_job_id d) ''processing'' # evs"
      "loop_calls (data_job_id d) (data_file_ids d) evs"
  | (finished) t where
      "emitted s (snd (worker env d s)) =
         UpdateJobStatus (data_job_id d) ''processing'' #
           all_success (data_job_id d) (data_file_ids d) @ t"
      "t = [CreateBundle (data_job_id d)]
         \<or> t = [CreateBundle (data_job_id d), UpdateJobStatus (data_job_id d) ''completed'']"
proof -
  from worker_trace[of env d s] obtain evs where
    tr: "trace (snd (worker env d s)) = trace s @ UpdateJobStatus (data_job_id d) ''processing'' # evs"
    and c: "evs = []
        \<or> ((\<exists>e. fst (worker env d s) = Inl e) \<and> loop_calls (data_job_id d) (data_file_ids d) evs)
        \<or> evs = all_success (data_job_id d) (data_file_ids d) @ [CreateBundle (data_job_id d)]
        \<or> evs = all_success (data_job_id d) (data_file_ids d) @
              [CreateBundle (data_job_id d), UpdateJobStatus (data_job_id d) ''completed'']"
    by blast
  have e: "emitted s (snd (worker env d s)) = UpdateJobStatus (data_job_id d) ''processing'' # evs"
    using tr by simp
  from c show thesis
  proof (elim disjE)
    assume "evs = []"
    then show thesis using e stopped by simp
  next
    assume "(\<exists>e. fst (worker env d s) = Inl e) \<and> loop_calls (data_job_id d) (data_file_ids d) evs"
    then show thesis using e failed by simp
  next
    assume "evs = all_success (data_job_id d) (data_file_ids d) @ [CreateBundle (data_job_id d)]"
    then show thesis using e finished[of "[CreateBundle (data_job_id d)]"] by simp
  next
    assume "evs = all_success (data_job_id d) (data_file_ids d) @
              [CreateBundle (data_job_id d), UpdateJobStatus (data_job_id d) ''completed'']"
    then show thesis
      using e finished[of "[CreateBundle (data_job_id d), UpdateJobStatus (data_job_id d) ''completed'']"]
      by simp
  qed
qed

lemma failing_run_calls:
  "emitted (submitted ''job_abc'' [70000, 70001, 70002])
     (snd (worker (env_failing 70001)
             \<lparr>data_job_id = ''job_abc'', data_file_ids = [70000, 70001, 70002]\<rparr>
             (submitted ''job_abc'' [70000, 70001, 70002])))
   = [UpdateJobStatus ''job_abc'' ''processing'',
      UpdateFileStatus ''job_abc'' 70000 ''processing'', ProcessDownload 70000,
      UploadToMinIO ''job_abc'' 70000, UpdateFileStatus ''job_abc'' 70000 ''completed'',
      UpdateJobProgress ''job_abc'',
      UpdateFileStatus ''job_abc'' 70001 ''processing'', ProcessDownload 70001,
      UpdateFileStatus ''job_abc'' 70001 ''failed'']"
  by (simp add: run_defs example_defs)

text \<open>
  Claim C7, as the code has it. In every run of the worker, each transition of a file to
  \<open>completed\<close> is followed at once by the progress update of its job, these are the only
  progress updates of the run (as many as there are such transitions), and a transition
  to \<open>failed\<close> is the last call of the run: no progress update follows it.
\<close>

theorem progress_recomputed_after_completed_only:
  "recomputed_after (emitted s (snd (worker env d s)))
   \<and> length (filter (\<lambda>e. e = UpdateJobProgress (data_job_id d)) (emitted s (snd (worker env d s))))
       = length (filter (is_transition (data_job_id d) ''completed'')
                   (emitted s (snd (worker env d s))))"
proof (cases rule: worker_emitted_cases[of s env d])
  case stopped
  then show ?thesis by simp
next
  case (failed evs)
  then show ?thesis
    using recomputed_after_loop[OF failed(2)] count_loop[OF failed(2)] by simp
next
  case (finished t)
  have "recomputed_after t" using finished(2) by auto
  from recomputed_after_all_success[OF this, of "data_job_id d" "data_file_ids d"]
  show ?thesis using finished
    by (auto simp add: count_all_success)
qed

theorem progress_recomputed_after_completed_only_witness:
  "recomputed_after
     [UpdateJobStatus ''job_abc'' ''processing'',
      UpdateFileStatus ''job_abc'' 70000 ''processing'', ProcessDownload 70000,
      UploadToMinIO ''job_abc'' 70000, UpdateFileStatus ''job_abc'' 70000 ''completed'',
      UpdateJobProgress ''job_abc'',
      UpdateFileStatus ''job_abc'' 70001 ''processing'', ProcessDownload 70001,
      UpdateFileStatus ''job_abc'' 70001 ''failed'']
   \<and> length (filter (\<lambda>e. e = UpdateJobProgress ''job_abc'')
        (emitted (submitted ''job_abc'' [70000, 70001, 70002])
           (snd (worker (env_failing 70001)
                   \<lparr>data_job_id = ''job_abc'', data_file_ids = [70000, 70001, 70002]\<rparr>
                   (submitted ''job_abc'' [70000, 70001, 70002]))))) = 1
   \<and> length (filter (is_transition ''job_abc'' ''completed'')
        (emitted (submitted ''job_abc'' [70000, 70001, 70002])
           (snd (worker (env_failing 70001)
                   \<lparr>data_job_id = ''job_abc'', data_file_ids = [70000, 70001, 70002]\<rparr>
                   (submitted ''job_abc'' [70000, 70001, 70002]))))) = 1"
  using progress_recomputed_after_completed_only
          [of "submitted ''job_abc'' [70000, 70001, 70002]" "env_failing 70001"
              "\<lparr>data_job_id = ''job_abc'', data_file_ids = [70000, 70001, 70002]\<rparr>"]
  by (simp add: failing_run_calls)

text \<open>
  The claim as the specification states it, that every terminal transition triggers the
  progress update, fails for a transition to \<open>failed\<close>: when the download of the only file
  of a job fails, the file is marked \<open>failed\<close> and \<open>updateJobProgress\<close> is never called.
\<close>

theorem progress_not_recomputed_counterexample:
  "emitted (submitted ''job_abc'' [70000])
     (snd (worker (env_failing 70000) \<lparr>data_job_id = ''job_abc'', data_file_ids = [70000]\<rparr>
             (submitted ''job_abc'' [70000])))
   = [UpdateJobStatus ''job_abc'' ''processing'',
      UpdateFileStatus ''job_abc'' 70000 ''processing'', ProcessDownload 70000,
      UpdateFileStatus ''job_abc'' 70000 ''failed'']
   \<and> map_option (file_status \<circ> fst)
        (files (snd (worker (env_failing 70000)
                       \<lparr>data_job_id = ''job_abc'', data_file_ids = [70000]\<rparr>
                       (submitted ''job_abc'' [70000]))) (fileKey ''job_abc'' 70000))
       = Some ''failed''
   \<and> UpdateJobProgress ''job_abc''
       \<notin> set (emitted (submitted ''job_abc'' [70000])
            (snd (worker (env_failing 70000) \<lparr>data_job_id = ''job_abc'', data_file_ids = [70000]\<rparr>
                    (submitted ''job_abc'' [70000]))))"
  by (simp add: run_defs example_defs)

subsection \<open>Which file records a run writes\<close>

lemma updateJobStatus_files [simp]: "files (snd (updateJobStatus j st b s)) = files s"
  by (simp add: updateJobStatus_def Let_def split: option.splits)

lemma updateJobProgress_files [simp]: "files (snd (updateJobProgress j s)) = files s"
  by (simp add: updateJobProgress_def Let_def split: option.splits sum.splits)

lemma updateFileStatus_files:
  "k \<noteq> fileKey j f \<Longrightarrow> files (updateFileStatus j f st url err s) k = files s k"
  by (simp add: updateFileStatus_def Let_def)

lemma call_processDownload_files [simp]: "files (snd (call_processDownload env f s)) = files s"
  by (simp add: call_processDownload_def split: prod.splits)

lemma call_uploadToMinIO_files [simp]: "files (snd (call_uploadToMinIO env r j f s)) = files s"
  by (simp add: call_uploadToMinIO_def split: prod.splits)

lemma call_createBundle_files [simp]: "files (snd (call_createBundle env j fs s)) = files s"
  by (simp add: call_createBundle_def split: prod.splits)

lemma try_block_files:
  "k \<noteq> fileKey j f \<Longrightarrow> files (snd (try_block env j f s)) k = files s k"
proof -
  assume k: "k \<noteq> fileKey j f"
  obtain r1 s1 where a: "call_processDownload env f s = (r1, s1)"
    by (cases "call_processDownload env f s")
  have f1: "files s1 = files s" using call_processDownload_files[of env f s] a by simp
  show ?thesis
  proof (cases r1)
    case (Inl e)
    then show ?thesis using a f1 by (simp add: try_block_def)
  next
    case (Inr res)
    obtain r2 s2 where b: "call_uploadToMinIO env res j f s1 = (r2, s2)"
      by (cases "call_uploadToMinIO env res j f s1")
    have f2: "files s2 = files s1" using call_uploadToMinIO_files[of env res j f s1] b by simp
    show ?thesis
    proof (cases r2)
      case (Inl e)
      then show ?thesis using a Inr b f1 f2 by (simp add: try_block_def)
    next
      case url: (Inr url)
      then show ?thesis
        using a Inr b f1 f2 k by (simp add: try_block_def updateFileStatus_files)
    qed
  qed
qed

lemma process_file_files:
  "k \<noteq> fileKey j f \<Longrightarrow> files (snd (process_file env j f s)) k = files s k"
proof -
  assume k: "k \<noteq> fileKey j f"
  let ?s1 = "updateFileStatus j f ''processing'' None None s"
  obtain r s2 where tb: "try_block env j f ?s1 = (r, s2)" by (cases "try_block env j f ?s1")
  have "files s2 k = files ?s1 k" using try_block_files[OF k, of env ?s1] tb by simp
  then have "files s2 k = files s k" using k by (simp add: updateFileStatus_files)
  then show ?thesis using tb k by (cases r) (simp_all add: process_file_def updateFileStatus_files)
qed

lemma worker_loop_files:
  "(\<forall>f \<in> set (started (emitted s (snd (worker_loop env j fs s)))). k \<noteq> fileKey j f)
     \<Longrightarrow> files (snd (worker_loop env j fs s)) k = files s k"
proof (induction fs arbitrary: s)
  case Nil
  then show ?case by simp
next
  case (Cons f fs)
  obtain r s1 where pf: "process_file env j f s = (r, s1)" by (cases "process_file env j f s")
  from process_file_started[of env j f s] pf obtain a where
    a: "trace s1 = trace s @ a" "started a = [f]" by auto
  show ?case
  proof (cases r)
    case (Inl e)
    then have s': "snd (worker_loop env j (f # fs) s) = s1" using pf by simp
    have "emitted s s1 = a" using a(1) by simp
    then have "k \<noteq> fileKey j f" using Cons.prems s' a(2) by simp
    then show ?thesis using process_file_files[of k j f env s] pf s' by simp
  next
    case (Inr u)
    let ?s2 = "snd (worker_loop env j fs s1)"
    have s': "snd (worker_loop env j (f # fs) s) = ?s2" using pf Inr by simp
    from worker_loop_trace[of env j fs s1] obtain b where b: "trace ?s2 = trace s1 @ b" by blast
    have e: "emitted s ?s2 = a @ b" using emitted_trans[OF a(1) b] .
    have e1: "emitted s1 ?s2 = b" using b by simp
    have all: "\<forall>g \<in> set (f # started b). k \<noteq> fileKey j g"
      using Cons.prems s' e a(2) by (simp add: started_append)
    then have "files ?s2 k = files s1 k" using Cons.IH[of s1] e1 by simp
    moreover have "files s1 k = files s k"
      using all process_file_files[of k j f env s] pf by simp
    ultimately show ?thesis using s' by simp
  qed
qed

lemma worker_files:
  assumes "\<forall>f \<in> set (started (emitted s (snd (worker env d s)))). k \<noteq> fileKey (data_job_id d) f"
  shows "files (snd (worker env d s)) k = files s k"
proof -
  let ?j = "data_job_id d" and ?fs = "data_file_ids d"
  obtain r1 s1 where u: "updateJobStatus ?j ''processing'' None s = (r1, s1)"
    by (cases "updateJobStatus ?j ''processing'' None s")
  have t1: "trace s1 = trace s @ [UpdateJobStatus ?j ''processing'']"
    using updateJobStatus_trace[of ?j "''processing''" None s] u by simp
  have f1: "files s1 = files s"
    using updateJobStatus_files[of ?j "''processing''" None s] u by simp
  show ?thesis
  proof (cases r1)
    case (Inl e)
    then show ?thesis using u f1 by (simp add: worker_def Let_def)
  next
    case (Inr x)
    obtain r2 s2 where l: "worker_loop env ?j ?fs s1 = (r2, s2)"
      by (cases "worker_loop env ?j ?fs s1")
    from worker_loop_trace[of env ?j ?fs s1] l obtain b where b: "trace s2 = trace s1 @ b"
      by auto
    have e1: "emitted s1 s2 = b" using b by simp
    have "\<exists>t. trace (snd (worker env d s)) = trace s2 @ t \<and> started t = []
             \<and> files (snd (worker env d s)) = files s2"
    proof (cases r2)
      case (Inl e)
      then show ?thesis using u Inr l by (simp add: worker_def Let_def)
    next
      case ok: (Inr y)
      obtain r3 s3 where c: "call_createBundle env ?j ?fs s2 = (r3, s3)"
        by (cases "call_createBundle env ?j ?fs s2")
      have t3: "trace s3 = trace s2 @ [CreateBundle ?j]"
        using call_createBundle_trace[of env ?j ?fs s2] c by simp
      have f3: "files s3 = files s2"
        using call_createBundle_files[of env ?j ?fs s2] c by simp
      show ?thesis
      proof (cases r3)
        case (Inl e)
        then show ?thesis using u Inr l ok c t3 f3 by (simp add: worker_def Let_def)
      next
        case url: (Inr url)
        have "worker env d s = updateJobStatus ?j ''completed'' (Some url) s3"
          using u Inr l ok c url by (simp add: worker_def Let_def)
        then show ?thesis using t3 f3 by simp
      qed
    qed
    then obtain t where t: "trace (snd (worker env d s)) = trace s2 @ t" "started t = []"
      "files (snd (worker env d s)) = files s2" by blast
    have "emitted s (snd (worker env d s)) = UpdateJobStatus ?j ''processing'' # b @ t"
      using t1 b t(1) by (simp add: emitted_def)
    then have "started (emitted s (snd (worker env d s))) = started b"
      using t(2) by (simp add: started_append)
    then have "\<forall>f \<in> set (started (emitted s1 (snd (worker_loop env ?j ?fs s1)))). k \<noteq> fileKey ?j f"
      using assms l e1 by simp
    from worker_loop_files[OF this] have "files s2 k = files s1 k" using l by simp
    then show ?thesis using t(3) f1 by simp
  qed
qed

subsection \<open>The shape of one run\<close>

lemma files_set_to_append: "files_set_to st (a @ b) = files_set_to st a @ files_set_to st b"
  by (induction st a rule: files_set_to.induct) simp_all

lemma downloaded_append: "downloaded (a @ b) = downloaded a @ downloaded b"
  by (induction a rule: downloaded.induct) simp_all

lemma all_success_reads:
  "started (all_success j fs) = fs"
  "downloaded (all_success j fs) = fs"
  "files_set_to ''completed'' (all_success j fs) = fs"
  "files_set_to ''failed'' (all_success j fs) = []"
  by (induction fs) (simp_all add: all_success_def success_calls_def)

lemma failure_calls_reads:
  assumes "fb \<in> set (failure_calls j g)"
  shows "started fb = [g]" "downloaded fb = [g]" "files_set_to ''failed'' fb = [g]"
    "files_set_to ''completed'' fb = [] \<or> files_set_to ''completed'' fb = [g]"
    "fb \<noteq> []" "last fb = UpdateFileStatus j g ''failed''"
  using assms by (auto simp add: failure_calls_def)

lemma worker_loop_shape:
  "(fst (worker_loop env j fs s) = Inr ()
      \<and> emitted s (snd (worker_loop env j fs s)) = all_success j fs)
   \<or> (\<exists>e pre g post fb. fst (worker_loop env j fs s) = Inl e \<and> fs = pre @ g # post
        \<and> fb \<in> set (failure_calls j g)
        \<and> emitted s (snd (worker_loop env j fs s)) = all_success j pre @ fb)"
proof (induction fs arbitrary: s)
  case Nil
  then show ?case by (simp add: all_success_def)
next
  case (Cons f fs)
  obtain r s1 where pf: "process_file env j f s = (r, s1)" by (cases "process_file env j f s")
  from process_file_trace[of env j f s] pf
  consider (ok) "r = Inr ()" "trace s1 = trace s @ success_calls j f"
    | (bad) e evs where "r = Inl e" "evs \<in> set (failure_calls j f)" "trace s1 = trace s @ evs"
    by auto
  then show ?case
  proof cases
    case ok
    have w: "worker_loop env j (f # fs) s = worker_loop env j fs s1" using pf ok by simp
    from worker_loop_trace[of env j fs s1] obtain b where
      b: "trace (snd (worker_loop env j fs s1)) = trace s1 @ b" by blast
    have e1: "emitted s1 (snd (worker_loop env j fs s1)) = b" using b by simp
    have e: "emitted s (snd (worker_loop env j (f # fs) s)) = success_calls j f @ b"
      using w emitted_trans[OF ok(2) b] by simp
    from Cons.IH[of s1] e1
    consider (all) "fst (worker_loop env j fs s1) = Inr ()" "b = all_success j fs"
      | (stop) e' pre g post fb where "fst (worker_loop env j fs s1) = Inl e'" "fs = pre @ g # post"
          "fb \<in> set (failure_calls j g)" "b = all_success j pre @ fb"
      by auto
    then show ?thesis
    proof cases
      case all
      then show ?thesis using w e by (simp add: all_success_def)
    next
      case stop
      have "f # fs = (f # pre) @ g # post" using stop(2) by simp
      moreover have "success_calls j f @ b = all_success j (f # pre) @ fb"
        using stop(4) by (simp add: all_success_def)
      ultimately show ?thesis using w e stop(1,3) by metis
    qed
  next
    case bad
    have "fst (worker_loop env j (f # fs) s) = Inl e" using pf bad by simp
    moreover have "f # fs = [] @ f # fs" by simp
    moreover have "emitted s (snd (worker_loop env j (f # fs) s)) = all_success j [] @ evs"
      using pf bad by (simp add: all_success_def)
    ultimately show ?thesis using bad(2) by blast
  qed
qed

lemma worker_shape:
  obtains (dead) e where "redis_get_job s (jobKey (data_job_id d)) = None"
      "fst (worker env d s) = Inl e"
      "emitted s (snd (worker env d s)) = [UpdateJobStatus (data_job_id d) ''processing'']"
  | (failed) e pre g post fb where "redis_get_job s (jobKey (data_job_id d)) \<noteq> None"
      "fst (worker env d s) = Inl e" "data_file_ids d = pre @ g # post"
      "fb \<in> set (failure_calls (data_job_id d) g)"
      "emitted s (snd (worker env d s)) =
         UpdateJobStatus (data_job_id d) ''processing'' # all_success (data_job_id d) pre @ fb"
  | (finished) t where "redis_get_job s (jobKey (data_job_id d)) \<noteq> None"
      "emitted s (snd (worker env d s)) =
         UpdateJobStatus (data_job_id d) ''processing'' #
           all_success (data_job_id d) (data_file_ids d) @ t"
      "t = [CreateBundle (data_job_id d)] \<and> (\<exists>e. fst (worker env d s) = Inl e)
         \<or> t = [CreateBundle (data_job_id d), UpdateJobStatus (data_job_id d) ''completed'']"
proof -
  let ?j = "data_job_id d" and ?fs = "data_file_ids d"
  obtain r1 s1 where u: "updateJobStatus ?j ''processing'' None s = (r1, s1)"
    by (cases "updateJobStatus ?j ''processing'' None s")
  have t1: "trace s1 = trace s @ [UpdateJobStatus ?j ''processing'']"
    using updateJobStatus_trace[of ?j "''processing''" None s] u by simp
  show thesis
  proof (cases r1)
    case (Inl e)
    have "redis_get_job s (jobKey ?j) = None"
      using u Inl by (simp add: updateJobStatus_def Let_def split: option.splits)
    moreover have "worker env d s = (Inl e, s1)" using u Inl by (simp add: worker_def Let_def)
    ultimately show ?thesis using dead[of e] t1 by simp
  next
    case (Inr x)
    have live: "redis_get_job s (jobKey ?j) \<noteq> None"
      using u Inr by (auto simp add: updateJobStatus_def Let_def split: option.splits)
    obtain r2 s2 where l: "worker_loop env ?j ?fs s1 = (r2, s2)"
      by (cases "worker_loop env ?j ?fs s1")
    from worker_loop_shape[of env ?j ?fs s1] l
    consider (all) "r2 = Inr ()" "emitted s1 s2 = all_success ?j ?fs"
      | (stop) e pre g post fb where "r2 = Inl e" "?fs = pre @ g # post"
          "fb \<in> set (failure_calls ?j g)" "emitted s1 s2 = all_success ?j pre @ fb"
      by auto
    then show ?thesis
    proof cases
      case stop
      from worker_loop_trace[of env ?j ?fs s1] l obtain b where b: "trace s2 = trace s1 @ b"
        by auto
      then have "b = all_success ?j pre @ fb" using stop(4) by simp
      then have "emitted s s2 = UpdateJobStatus ?j ''processing'' # all_success ?j pre @ fb"
        using t1 b by simp
      moreover have "worker env d s = (Inl e, s2)"
        using u Inr l stop(1) by (simp add: worker_def Let_def)
      ultimately show ?thesis using failed[of e pre g post fb] live stop(2,3) by simp
    next
      case all
      from worker_loop_trace[of env ?j ?fs s1] l obtain b where b: "trace s2 = trace s1 @ b"
        by auto
      then have bb: "b = all_success ?j ?fs" using all(2) by simp
      obtain r3 s3 where c: "call_createBundle env ?j ?fs s2 = (r3, s3)"
        by (cases "call_createBundle env ?j ?fs s2")
      have t3: "trace s3 = trace s2 @ [CreateBundle ?j]"
        using call_createBundle_trace[of env ?j ?fs s2] c by simp
      show ?thesis
      proof (cases r3)
        case (Inl e)
        have "worker env d s = (Inl e, s3)"
          using u Inr l all(1) c Inl by (simp add: worker_def Let_def)
        then show ?thesis using finished[of "[CreateBundle ?j]"] live t1 b bb t3 by simp
      next
        case url: (Inr url)
        have "worker env d s = updateJobStatus ?j ''completed'' (Some url) s3"
          using u Inr l all(1) c url by (simp add: worker_def Let_def)
        then show ?thesis
          using finished[of "[CreateBundle ?j, UpdateJobStatus ?j ''completed'']"] live t1 b bb t3
          by simp
      qed
    qed
  qed
qed

text \<open>
  Claim C8, as the code has it. One run of the worker takes the files one after the other in
  the order of \<open>file_ids\<close>. A file enters \<open>processing\<close> only when no file has failed in
  the run and the files completed in it are exactly the files before that file; the files
  started are a prefix of \<open>file_ids\<close>, each is downloaded once, and the record of a file
  the run did not start is left as it was. When the job record cannot be read nothing is
  started. Otherwise, when no file fails, every file is started and completed; when a
  file fails it is the last one started, every file before it was completed, and its
  transition to \<open>failed\<close> is the last call of the run, so no later file is started in that
  run. A run that returns normally has started and completed every file.
\<close>

theorem worker_runs_files_in_order:
  "let j = data_job_id d; fs = data_file_ids d; s' = snd (worker env d s); evs = emitted s s'
   in sequential fs [] False evs
    \<and> started evs = take (length (started evs)) fs
    \<and> downloaded evs = started evs
    \<and> (\<forall>f. f \<notin> set (started evs) \<longrightarrow> files s' (fileKey j f) = files s (fileKey j f))
    \<and> (case redis_get_job s (jobKey j) of
         None \<Rightarrow> evs = [UpdateJobStatus j ''processing'']
       | Some v \<Rightarrow>
           (case files_set_to ''failed'' evs of
              [] \<Rightarrow> started evs = fs \<and> files_set_to ''completed'' evs = fs
            | g # others \<Rightarrow>
                others = [] \<and> last evs = UpdateFileStatus j g ''failed'' \<and> last (started evs) = g
                \<and> (files_set_to ''completed'' evs = butlast (started evs)
                    \<or> files_set_to ''completed'' evs = started evs)))
    \<and> (fst (worker env d s) = Inr () \<longrightarrow>
          started evs = fs \<and> files_set_to ''completed'' evs = fs \<and> files_set_to ''failed'' evs = [])"
proof -
  let ?j = "data_job_id d" and ?fs = "data_file_ids d"
  let ?evs = "emitted s (snd (worker env d s))"
  have frame: "\<forall>f. f \<notin> set (started ?evs) \<longrightarrow>
         files (snd (worker env d s)) (fileKey ?j f) = files s (fileKey ?j f)"
  proof (intro allI impI)
    fix f assume "f \<notin> set (started ?evs)"
    then have "\<forall>g \<in> set (started ?evs). fileKey ?j f \<noteq> fileKey ?j g"
      by auto
    then show "files (snd (worker env d s)) (fileKey ?j f) = files s (fileKey ?j f)"
      by (rule worker_files)
  qed
  have order: "sequential ?fs [] False ?evs \<and> started ?evs = take (length (started ?evs)) ?fs"
  proof (cases rule: worker_emitted_cases[of s env d])
    case stopped
    then show ?thesis by simp
  next
    case (failed evs)
    then show ?thesis
      using sequential_loop[OF failed(2), of "[]"] started_loop[OF failed(2)] by simp
  next
    case (finished t)
    have t: "started t = []" "sequential ([] @ ?fs) ([] @ ?fs) False t"
      using finished(2) by auto
    from sequential_all_success[OF t(2), of ?j] started_all_success[OF t(1), of ?j ?fs]
    show ?thesis using finished(1) by simp
  qed
  have run: "downloaded ?evs = started ?evs
    \<and> (case redis_get_job s (jobKey ?j) of
         None \<Rightarrow> ?evs = [UpdateJobStatus ?j ''processing'']
       | Some v \<Rightarrow>
           (case files_set_to ''failed'' ?evs of
              [] \<Rightarrow> started ?evs = ?fs \<and> files_set_to ''completed'' ?evs = ?fs
            | g # others \<Rightarrow>
                others = [] \<and> last ?evs = UpdateFileStatus ?j g ''failed'' \<and> last (started ?evs) = g
                \<and> (files_set_to ''completed'' ?evs = butlast (started ?evs)
                    \<or> files_set_to ''completed'' ?evs = started ?evs)))
    \<and> (fst (worker env d s) = Inr () \<longrightarrow>
          started ?evs = ?fs \<and> files_set_to ''completed'' ?evs = ?fs
          \<and> files_set_to ''failed'' ?evs = [])"
  proof (cases rule: worker_shape[of s d env])
    case (dead e)
    then show ?thesis by simp
  next
    case (failed e pre g post fb)
    note r = failure_calls_reads[OF failed(4)]
    have st: "started ?evs = pre @ [g]" "downloaded ?evs = pre @ [g]"
      "files_set_to ''failed'' ?evs = [g]"
      "files_set_to ''completed'' ?evs = pre @ files_set_to ''completed'' fb"
      "last ?evs = UpdateFileStatus ?j g ''failed''"
      using failed(5) r(1,2,3,5,6)
      by (simp_all add: started_append downloaded_append files_set_to_append all_success_reads)
    obtain v where v: "redis_get_job s (jobKey ?j) = Some v" using failed(1) by blast
    show ?thesis using st r(4) v failed(2) by auto
  next
    case (finished t)
    have t: "started t = []" "downloaded t = []" "files_set_to ''completed'' t = []"
      "files_set_to ''failed'' t = []"
      using finished(3) by auto
    have st: "started ?evs = ?fs" "downloaded ?evs = ?fs"
      "files_set_to ''failed'' ?evs = []" "files_set_to ''completed'' ?evs = ?fs"
      using finished(2) t
      by (simp_all add: started_append downloaded_append files_set_to_append all_success_reads)
    obtain v where v: "redis_get_job s (jobKey ?j) = Some v" using finished(1) by blast
    show ?thesis using st v by simp
  qed
  show ?thesis unfolding Let_def using order frame run by blast
qed

theorem worker_runs_files_in_order_witness:
  "emitted (submitted ''job_abc'' [70000, 70001, 70002])
     (snd (worker (env_failing 70001)
             \<lparr>data_job_id = ''job_abc'', data_file_ids = [70000, 70001, 70002]\<rparr>
             (submitted ''job_abc'' [70000, 70001, 70002])))
   = [UpdateJobStatus ''job_abc'' ''processing'',
      UpdateFileStatus ''job_abc'' 70000 ''processing'', ProcessDownload 70000,
      UploadToMinIO ''job_abc'' 70000, UpdateFileStatus ''job_abc'' 70000 ''completed'',
      UpdateJobProgress ''job_abc'',
      UpdateFileStatus ''job_abc'' 70001 ''processing'', ProcessDownload 70001,
      UpdateFileStatus ''job_abc'' 70001 ''failed'']
   \<and> sequential [70000, 70001, 70002] [] False
       (emitted (submitted ''job_abc'' [70000, 70001, 70002])
          (snd (worker (env_failing 70001)
                  \<lparr>data_job_id = ''job_abc'', data_file_ids = [70000, 70001, 70002]\<rparr>
                  (submitted ''job_abc'' [70000, 70001, 70002]))))
   \<and> files_set_to ''completed''
       (emitted (submitted ''job_abc'' [70000, 70001, 70002])
          (snd (worker (env_failing 70001)
                  \<lparr>data_job_id = ''job_abc'', data_file_ids = [70000, 70001, 70002]\<rparr>
                  (submitted ''job_abc'' [70000, 70001, 70002])))) = [70000]
   \<and> files_set_to ''failed''
       (emitted (submitted ''job_abc'' [70000, 70001, 70002])
          (snd (worker (env_failing 70001)
                  \<lparr>data_job_id = ''job_abc'', data_file_ids = [70000, 70001, 70002]\<rparr>
                  (submitted ''job_abc'' [70000, 70001, 70002])))) = [70001]
   \<and> 70002 \<notin> set (started
       (emitted (submitted ''job_abc'' [70000, 70001, 70002])
          (snd (worker (env_failing 70001)
                  \<lparr>data_job_id = ''job_abc'', data_file_ids = [70000, 70001, 70002]\<rparr>
                  (submitted ''job_abc'' [70000, 70001, 70002])))))
   \<and> files (snd (worker (env_failing 70001)
                \<lparr>data_job_id = ''job_abc'', data_file_ids = [70000, 70001, 70002]\<rparr>
                (submitted ''job_abc'' [70000, 70001, 70002]))) (fileKey ''job_abc'' 70002)
       = Some (file_record ''queued'' ''job_abc'' 70002, 86400000)
   \<and> fst (worker env_ok \<lparr>data_job_id = ''job_abc'', data_file_ids = [70000, 70001]\<rparr>
             (submitted ''job_abc'' [70000, 70001])) = Inr ()
   \<and> files_set_to ''completed''
       (emitted (submitted ''job_abc'' [70000, 70001])
          (snd (worker env_ok \<lparr>data_job_id = ''job_abc'', data_file_ids = [70000, 70001]\<rparr>
                  (submitted ''job_abc'' [70000, 70001])))) = [70000, 70001]"
proof -
  let ?s = "submitted ''job_abc'' [70000, 70001, 70002]"
  let ?d = "\<lparr>data_job_id = ''job_abc'', data_file_ids = [70000, 70001, 70002]\<rparr>"
  let ?t = "submitted ''job_abc'' [70000, 70001]"
  let ?c = "\<lparr>data_job_id = ''job_abc'', data_file_ids = [70000, 70001]\<rparr>"
  note th = worker_runs_files_in_order [where d = ?d and s = ?s and env = "env_failing 70001", unfolded Let_def]
  note ok = worker_runs_files_in_order [where d = ?c and s = ?t and env = env_ok, unfolded Let_def]
  have st: "started (emitted ?s (snd (worker (env_failing 70001) ?d ?s))) = [70000, 70001]"
    by (simp add: failing_run_calls)
  from th have "70002 \<notin> set (started (emitted ?s (snd (worker (env_failing 70001) ?d ?s)))) \<longrightarrow>
         files (snd (worker (env_failing 70001) ?d ?s)) (fileKey (data_job_id ?d) 70002)
           = files ?s (fileKey (data_job_id ?d) 70002)"
    by blast
  then have "files (snd (worker (env_failing 70001) ?d ?s)) (fileKey ''job_abc'' 70002)
           = files ?s (fileKey ''job_abc'' 70002)"
    using st by simp
  moreover have "files ?s (fileKey ''job_abc'' 70002)
           = Some (file_record ''queued'' ''job_abc'' 70002, 86400000)"
    by (simp add: submitted_def fileKey_def)
  moreover have r: "fst (worker env_ok ?c ?t) = Inr ()"
    by (simp add: run_defs example_defs)
  moreover from ok r have "files_set_to ''completed'' (emitted ?t (snd (worker env_ok ?c ?t)))
      = [70000, 70001]"
    by simp
  ultimately show ?thesis using th st by (simp add: failing_run_calls)
qed

text \<open>
  The claim as the specification states it, that after a task has failed no later task is
  ever started and the later tasks stay \<open>queued\<close>, fails, because the queue runs the worker
  again and every run starts from the first file. The first download of file 70000 fails,
  with an error that is not retryable, and 70000 is marked \<open>failed\<close>; the second run of
  the job completes 70000 and then starts and completes 70001. And when 70001 fails in
  the first run and 70000 fails in the two runs after it, the attempts are used up with
  the first task \<open>failed\<close> while the later task is not \<open>queued\<close> but \<open>failed\<close>.
\<close>

theorem later_file_started_on_retry_counterexample:
  "\<not> shouldRetry (classifyError env_fails_once (Error ''invalid file''))
   \<and> emitted (submitted ''job_abc'' [70000, 70001])
     (run_job env_fails_once
        \<lparr>data = \<lparr>data_job_id = ''job_abc'', data_file_ids = [70000, 70001]\<rparr>, attemptsMade = 0\<rparr>
        (submitted ''job_abc'' [70000, 70001]))
   = [UpdateJobStatus ''job_abc'' ''processing'',
      UpdateFileStatus ''job_abc'' 70000 ''processing'', ProcessDownload 70000,
      UpdateFileStatus ''job_abc'' 70000 ''failed'',
      UpdateJobStatus ''job_abc'' ''processing'',
      UpdateFileStatus ''job_abc'' 70000 ''processing'', ProcessDownload 70000,
      UploadToMinIO ''job_abc'' 70000, UpdateFileStatus ''job_abc'' 70000 ''completed'',
      UpdateJobProgress ''job_abc'',
      UpdateFileStatus ''job_abc'' 70001 ''processing'', ProcessDownload 70001,
      UploadToMinIO ''job_abc'' 70001, UpdateFileStatus ''job_abc'' 70001 ''completed'',
      UpdateJobProgress ''job_abc'',
      CreateBundle ''job_abc'', UpdateJobStatus ''job_abc'' ''completed'']
   \<and> \<not> sequential [70000, 70001] [] False
       (emitted (submitted ''job_abc'' [70000, 70001])
          (run_job env_fails_once
             \<lparr>data = \<lparr>data_job_id = ''job_abc'', data_file_ids = [70000, 70001]\<rparr>, attemptsMade = 0\<rparr>
             (submitted ''job_abc'' [70000, 70001])))
   \<and> map_option (file_status \<circ> fst)
       (files (submitted ''job_abc'' [70000, 70001]) (fileKey ''job_abc'' 70001))
     = Some ''queued''
   \<and> map_option (file_status \<circ> fst)
       (files (run_job env_fails_once
                 \<lparr>data = \<lparr>data_job_id = ''job_abc'', data_file_ids = [70000, 70001]\<rparr>,
                  attemptsMade = 0\<rparr>
                 (submitted ''job_abc'' [70000, 70001])) (fileKey ''job_abc'' 70001))
     = Some ''completed''
   \<and> started
       (emitted (submitted ''job_abc'' [70000, 70001])
          (run_job env_fails_later
             \<lparr>data = \<lparr>data_job_id = ''job_abc'', data_file_ids = [70000, 70001]\<rparr>, attemptsMade = 0\<rparr>
             (submitted ''job_abc'' [70000, 70001])))
     = [70000, 70001, 70000, 70000]
   \<and> map attempts (map snd
       (failedQueue (run_job env_fails_later
                 \<lparr>data = \<lparr>data_job_id = ''job_abc'', data_file_ids = [70000, 70001]\<rparr>,
                  attemptsMade = 0\<rparr>
                 (submitted ''job_abc'' [70000, 70001])))) = [3]
   \<and> map (\<lambda>f. map_option (file_status \<circ> fst)
       (files (run_job env_fails_later
                 \<lparr>data = \<lparr>data_job_id = ''job_abc'', data_file_ids = [70000, 70001]\<rparr>,
                  attemptsMade = 0\<rparr>
                 (submitted ''job_abc'' [70000, 70001])) (fileKey ''job_abc'' f))) [70000, 70001]
     = [Some ''failed'', Some ''failed'']"
  by (simp add: queue_defs run_defs example_defs env_fails_once_def env_fails_later_def
      shouldRetry_def)

section \<open>Progress\<close>

subsection \<open>Rounding to a double\<close>









subsection \<open>The progress update\<close>

lemma count_completed_record_call [simp]:
  "count_completed (record_call e s) j fs n = count_completed s j fs n"
  by (induction fs arbitrary: n) (simp_all split: option.splits)












section \<open>The job record during a run\<close>

lemma inv_since_same:
  "jobs s' = jobs s \<Longrightarrow> job_history s' = job_history s
     \<Longrightarrow> inv_since n Q P key s' = inv_since n Q P key s"
  by (simp add: inv_since_def stored_job_def)

lemma inv_since_record_call [simp]:
  "inv_since n Q P key (record_call e s) = inv_since n Q P key s"
  by (rule inv_since_same) simp_all

lemma inv_since_advance [simp]:
  "inv_since n Q P key (advance d s) = inv_since n Q P key s"
  by (rule inv_since_same) simp_all

lemma inv_since_write:
  assumes "inv_since n Q P key s" "P v" "Q' v"
    and "jobs s' = (jobs s)(key \<mapsto> (v, e))" "job_history s' = job_history s @ [(key, v)]"
  shows "inv_since n Q' P key s'"
  using assms by (simp add: inv_since_def stored_job_def)

lemma inv_since_weaken:
  "inv_since n Q P key s \<Longrightarrow> (\<And>v. Q v \<Longrightarrow> Q' v) \<Longrightarrow> inv_since n Q' P key s"
  by (auto simp add: inv_since_def split: option.splits)

lemma inv_since_live:
  "inv_since n Q P key s \<Longrightarrow> redis_get_job s key = Some v \<Longrightarrow> Q v"
  by (auto simp add: inv_since_def stored_job_def redis_get_job_def live_def
      split: option.splits if_splits)

lemma inv_since_start:
  "(case stored_job s key of None \<Rightarrow> True | Some v \<Rightarrow> Q v)
     \<Longrightarrow> inv_since (length (job_history s)) Q P key s"
  by (simp add: inv_since_def)

lemma inv_since_end:
  "inv_since (length (job_history s)) Q P key s' \<Longrightarrow>
     list_all (\<lambda>w. P (snd w)) (written_since s s')
     \<and> (case stored_job s' key of None \<Rightarrow> True | Some v \<Rightarrow> Q v)"
  by (simp add: inv_since_def written_since_def)

lemma updateFileStatus_jobs [simp]:
  "jobs (updateFileStatus j f st url err s) = jobs s"
  "job_history (updateFileStatus j f st url err s) = job_history s"
  by (simp_all add: updateFileStatus_def Let_def)

lemma call_processDownload_jobs [simp]:
  "jobs (snd (call_processDownload env f s)) = jobs s"
  "job_history (snd (call_processDownload env f s)) = job_history s"
  by (simp_all add: call_processDownload_def split: prod.splits)

lemma call_uploadToMinIO_jobs [simp]:
  "jobs (snd (call_uploadToMinIO env r j f s)) = jobs s"
  "job_history (snd (call_uploadToMinIO env r j f s)) = job_history s"
  by (simp_all add: call_uploadToMinIO_def split: prod.splits)

lemma call_createBundle_jobs [simp]:
  "jobs (snd (call_createBundle env j fs s)) = jobs s"
  "job_history (snd (call_createBundle env j fs s)) = job_history s"
  by (simp_all add: call_createBundle_def split: prod.splits)

lemma on_failed_jobs [simp]:
  "jobs (on_failed job err s) = jobs s"
  "job_history (on_failed job err s) = job_history s"
  by (simp_all add: on_failed_def)

lemma inv_since_other_calls [simp]:
  "inv_since n Q P key (updateFileStatus j f st url err s) = inv_since n Q P key s"
  "inv_since n Q P key (snd (call_processDownload env f s)) = inv_since n Q P key s"
  "inv_since n Q P key (snd (call_uploadToMinIO env r j f s)) = inv_since n Q P key s"
  "inv_since n Q P key (snd (call_createBundle env j fs s)) = inv_since n Q P key s"
  "inv_since n Q P key (on_failed job err' s) = inv_since n Q P key s"
  by (rule inv_since_same; simp)+

lemma updateJobProgress_inv:
  assumes "inv_since n Q P (jobKey j) s"
    and "\<And>v p. Q v \<Longrightarrow> Q (v\<lparr>progress := p\<rparr>) \<and> P (v\<lparr>progress := p\<rparr>)"
  shows "inv_since n Q P (jobKey j) (snd (updateJobProgress j s))"
proof (cases "redis_get_job s (jobKey j)")
  case None
  then show ?thesis
    using assms(1) by (simp add: updateJobProgress_def Let_def)
next
  case (Some v)
  have q: "Q v" using inv_since_live[OF assms(1) Some] .
  show ?thesis
  proof (cases "count_completed s j (file_ids v) 0")
    case (Inl e)
    then show ?thesis
      using assms(1) Some by (simp add: updateJobProgress_def Let_def)
  next
    case (Inr c)
    let ?v = "v\<lparr>progress := \<lparr>completed = c, total = length (file_ids v),
                              percentage = percentage_of c (length (file_ids v))\<rparr>\<rparr>"
    have s': "snd (updateJobProgress j s)
                = redis_setex_job (jobKey j) 86400 ?v (record_call (UpdateJobProgress j) s)"
      using Some Inr by (simp add: updateJobProgress_def Let_def)
    show ?thesis
      unfolding s'
      by (rule inv_since_write[OF assms(1), of ?v Q _ "now s + 86400 * 1000"])
         (use assms(2)[OF q] in simp_all)
  qed
qed

lemma updateJobStatus_inv:
  assumes "inv_since n Q P (jobKey j) s"
    and "\<And>v. Q v \<Longrightarrow>
            Q' (if st = ''completed''
                then v\<lparr>status := st, updated_at := now s, completed_at := Some (now s),
                       bundle_url := b\<rparr>
                else v\<lparr>status := st, updated_at := now s\<rparr>)
          \<and> P (if st = ''completed''
                then v\<lparr>status := st, updated_at := now s, completed_at := Some (now s),
                       bundle_url := b\<rparr>
                else v\<lparr>status := st, updated_at := now s\<rparr>)"
  shows "(\<exists>e. fst (updateJobStatus j st b s) = Inl e)
           \<and> inv_since n Q P (jobKey j) (snd (updateJobStatus j st b s))
         \<or> fst (updateJobStatus j st b s) = Inr ()
           \<and> inv_since n Q' P (jobKey j) (snd (updateJobStatus j st b s))"
proof (cases "redis_get_job s (jobKey j)")
  case None
  then show ?thesis
    using assms(1) by (simp add: updateJobStatus_def Let_def)
next
  case (Some v)
  have q: "Q v" using inv_since_live[OF assms(1) Some] .
  let ?v = "if st = ''completed''
            then v\<lparr>status := st, updated_at := now s, completed_at := Some (now s),
                   bundle_url := b\<rparr>
            else v\<lparr>status := st, updated_at := now s\<rparr>"
  have r: "updateJobStatus j st b s
             = (Inr (), redis_setex_job (jobKey j) 86400 ?v (record_call (UpdateJobStatus j st) s))"
    using Some by (simp add: updateJobStatus_def Let_def)
  have "inv_since n Q' P (jobKey j)
          (redis_setex_job (jobKey j) 86400 ?v (record_call (UpdateJobStatus j st) s))"
    by (rule inv_since_write[OF assms(1), of ?v Q' _ "now s + 86400 * 1000"])
       (use assms(2)[OF q] in simp_all)
  then show ?thesis using r by simp
qed

lemma try_block_inv:
  assumes "inv_since n Q P (jobKey j) s"
    and "\<And>v p. Q v \<Longrightarrow> Q (v\<lparr>progress := p\<rparr>) \<and> P (v\<lparr>progress := p\<rparr>)"
  shows "inv_since n Q P (jobKey j) (snd (try_block env j f s))"
proof -
  obtain r1 s1 where a: "call_processDownload env f s = (r1, s1)"
    by (cases "call_processDownload env f s")
  have i1: "inv_since n Q P (jobKey j) s1"
    using inv_since_other_calls(2)[of n Q P "jobKey j" env f s] a assms(1) by simp
  show ?thesis
  proof (cases r1)
    case (Inl e)
    then show ?thesis using a i1 by (simp add: try_block_def)
  next
    case (Inr res)
    obtain r2 s2 where b: "call_uploadToMinIO env res j f s1 = (r2, s2)"
      by (cases "call_uploadToMinIO env res j f s1")
    have i2: "inv_since n Q P (jobKey j) s2"
      using inv_since_other_calls(3)[of n Q P "jobKey j" env res j f s1] b i1 by simp
    show ?thesis
    proof (cases r2)
      case (Inl e)
      then show ?thesis using a Inr b i2 by (simp add: try_block_def)
    next
      case url: (Inr url)
      have i3: "inv_since n Q P (jobKey j)
                  (updateFileStatus j f ''completed'' (Some (Val url)) None s2)"
        using i2 by simp
      show ?thesis
        using a Inr b url updateJobProgress_inv[OF i3 assms(2)] by (simp add: try_block_def)
    qed
  qed
qed

lemma process_file_inv:
  assumes "inv_since n Q P (jobKey j) s"
    and "\<And>v p. Q v \<Longrightarrow> Q (v\<lparr>progress := p\<rparr>) \<and> P (v\<lparr>progress := p\<rparr>)"
  shows "inv_since n Q P (jobKey j) (snd (process_file env j f s))"
proof -
  let ?s1 = "updateFileStatus j f ''processing'' None None s"
  have i1: "inv_since n Q P (jobKey j) ?s1" using assms(1) by simp
  obtain r s2 where tb: "try_block env j f ?s1 = (r, s2)" by (cases "try_block env j f ?s1")
  have i2: "inv_since n Q P (jobKey j) s2" using try_block_inv[OF i1 assms(2), of env f] tb by simp
  show ?thesis using tb i2 by (cases r) (simp_all add: process_file_def)
qed

lemma worker_loop_inv:
  assumes "inv_since n Q P (jobKey j) s"
    and "\<And>v p. Q v \<Longrightarrow> Q (v\<lparr>progress := p\<rparr>) \<and> P (v\<lparr>progress := p\<rparr>)"
  shows "inv_since n Q P (jobKey j) (snd (worker_loop env j fs s))"
  using assms(1)
proof (induction fs arbitrary: s)
  case Nil
  then show ?case by simp
next
  case (Cons f fs)
  obtain r s1 where pf: "process_file env j f s = (r, s1)" by (cases "process_file env j f s")
  have i1: "inv_since n Q P (jobKey j) s1"
    using process_file_inv[OF Cons.prems assms(2), of env f] pf by simp
  show ?case using pf i1 Cons.IH[OF i1] by (cases r) simp_all
qed

lemma worker_inv:
  assumes i: "inv_since n Qa P (jobKey (data_job_id d)) s"
    and c0: "\<And>v. Q v \<Longrightarrow> Qa v"
    and c1: "\<And>v t. Qa v \<Longrightarrow> Q (v\<lparr>status := ''processing'', updated_at := t\<rparr>)
                          \<and> P (v\<lparr>status := ''processing'', updated_at := t\<rparr>)"
    and c2: "\<And>v p. Q v \<Longrightarrow> Q (v\<lparr>progress := p\<rparr>) \<and> P (v\<lparr>progress := p\<rparr>)"
    and c3: "\<And>v t b. Q v \<Longrightarrow>
               R (v\<lparr>status := ''completed'', updated_at := t, completed_at := Some t,
                    bundle_url := b\<rparr>)
             \<and> P (v\<lparr>status := ''completed'', updated_at := t, completed_at := Some t,
                    bundle_url := b\<rparr>)"
  shows "(\<exists>e. fst (worker env d s) = Inl e) \<and> inv_since n Qa P (jobKey (data_job_id d)) (snd (worker env d s))
       \<or> fst (worker env d s) = Inr () \<and> inv_since n R P (jobKey (data_job_id d)) (snd (worker env d s))"
proof -
  let ?j = "data_job_id d" and ?fs = "data_file_ids d"
  obtain r1 s1 where u: "updateJobStatus ?j ''processing'' None s = (r1, s1)"
    by (cases "updateJobStatus ?j ''processing'' None s")
  have "(\<exists>e. r1 = Inl e) \<and> inv_since n Qa P (jobKey ?j) s1
        \<or> r1 = Inr () \<and> inv_since n Q P (jobKey ?j) s1"
    using updateJobStatus_inv[OF i, where st = "''processing''" and b = None and Q' = Q] c1 u by simp
  then consider (dead) e where "r1 = Inl e" "inv_since n Qa P (jobKey ?j) s1"
    | (live) "r1 = Inr ()" "inv_since n Q P (jobKey ?j) s1"
    by blast
  then show ?thesis
  proof cases
    case dead
    then show ?thesis using u by (simp add: worker_def Let_def)
  next
    case live
    obtain r2 s2 where l: "worker_loop env ?j ?fs s1 = (r2, s2)"
      by (cases "worker_loop env ?j ?fs s1")
    have i2: "inv_since n Q P (jobKey ?j) s2"
      using worker_loop_inv[OF live(2) c2, of env ?fs] l by simp
    show ?thesis
    proof (cases r2)
      case (Inl e)
      have "inv_since n Qa P (jobKey ?j) s2" using inv_since_weaken[OF i2 c0] .
      then show ?thesis using u live(1) l Inl by (simp add: worker_def Let_def)
    next
      case ok: (Inr y)
      obtain r3 s3 where c: "call_createBundle env ?j ?fs s2 = (r3, s3)"
        by (cases "call_createBundle env ?j ?fs s2")
      have i3: "inv_since n Q P (jobKey ?j) s3"
        using inv_since_other_calls(4)[of n Q P "jobKey ?j" env ?j ?fs s2] c i2 by simp
      show ?thesis
      proof (cases r3)
        case (Inl e)
        have "inv_since n Qa P (jobKey ?j) s3" using inv_since_weaken[OF i3 c0] .
        then show ?thesis using u live(1) l ok c Inl by (simp add: worker_def Let_def)
      next
        case url: (Inr url)
        have w: "worker env d s = updateJobStatus ?j ''completed'' (Some url) s3"
          using u live(1) l ok c url by (simp add: worker_def Let_def)
        have "(\<exists>e. fst (updateJobStatus ?j ''completed'' (Some url) s3) = Inl e)
                \<and> inv_since n Q P (jobKey ?j) (snd (updateJobStatus ?j ''completed'' (Some url) s3))
              \<or> fst (updateJobStatus ?j ''completed'' (Some url) s3) = Inr ()
                \<and> inv_since n R P (jobKey ?j) (snd (updateJobStatus ?j ''completed'' (Some url) s3))"
          using updateJobStatus_inv[OF i3, where st = "''completed''" and b = "Some url" and Q' = R] c3 by simp
        then show ?thesis using w inv_since_weaken[OF _ c0] by auto
      qed
    qed
  qed
qed

lemma run_job_inv:
  assumes c0: "\<And>v. Q v \<Longrightarrow> Qa v"
    and c1: "\<And>v t. Qa v \<Longrightarrow> Q (v\<lparr>status := ''processing'', updated_at := t\<rparr>)
                          \<and> P (v\<lparr>status := ''processing'', updated_at := t\<rparr>)"
    and c2: "\<And>v p. Q v \<Longrightarrow> Q (v\<lparr>progress := p\<rparr>) \<and> P (v\<lparr>progress := p\<rparr>)"
    and c3: "\<And>v t b. Q v \<Longrightarrow>
               R (v\<lparr>status := ''completed'', updated_at := t, completed_at := Some t,
                    bundle_url := b\<rparr>)
             \<and> P (v\<lparr>status := ''completed'', updated_at := t, completed_at := Some t,
                    bundle_url := b\<rparr>)"
  shows "inv_since n Qa P (jobKey (data_job_id (data job))) s
     \<Longrightarrow> inv_since n (\<lambda>v. Qa v \<or> R v) P (jobKey (data_job_id (data job))) (run_job env job s)"
proof (induction env job s rule: run_job.induct)
  case (1 env job s)
  let ?key = "jobKey (data_job_id (data job))"
  obtain r s1 where w: "worker env (data job) s = (r, s1)" by (cases "worker env (data job) s")
  from worker_inv[OF "1.prems" c0 c1 c2 c3, of env] w
  consider (failed) e where "r = Inl e" "inv_since n Qa P ?key s1"
    | (succeeded) "r = Inr ()" "inv_since n R P ?key s1"
    by auto
  then show ?case
  proof cases
    case succeeded
    have "run_job env job s = s1" using w succeeded(1) by (simp add: run_job.simps[of env job s])
    then show ?thesis using inv_since_weaken[OF succeeded(2), of "\<lambda>v. Qa v \<or> R v"] by simp
  next
    case failed
    let ?job1 = "job\<lparr>attemptsMade := attemptsMade job + 1\<rparr>"
    let ?s2 = "on_failed ?job1 e s1"
    have i2: "inv_since n Qa P ?key ?s2" using failed(2) by simp
    show ?thesis
    proof (cases "attemptsMade ?job1 < 3")
      case True
      let ?s3 = "advance (2000 * 2 ^ (attemptsMade ?job1 - 1)) ?s2"
      have r: "run_job env job s = run_job env ?job1 ?s3"
        using w failed(1) True by (simp add: run_job.simps[of env job s] Let_def)
      have "inv_since n Qa P (jobKey (data_job_id (data ?job1))) ?s3" using i2 by simp
      from "1.IH"[OF w[symmetric] failed(1) refl refl True this]
      show ?thesis using r by simp
    next
      case False
      have "run_job env job s = ?s2"
        using w failed(1) False by (simp add: run_job.simps[of env job s] Let_def)
      then show ?thesis using inv_since_weaken[OF i2, of "\<lambda>v. Qa v \<or> R v"] by simp
    qed
  qed
qed

lemma updateJobStatus_stored:
  assumes "redis_get_job s (jobKey jobId) = Some v"
  shows "fst (updateJobStatus jobId st b s) = Inr ()
       \<and> stored_job (snd (updateJobStatus jobId st b s)) (jobKey jobId) =
           Some (if st = ''completed''
                 then v\<lparr>status := st, updated_at := now s, completed_at := Some (now s), bundle_url := b\<rparr>
                 else v\<lparr>status := st, updated_at := now s\<rparr>)"
  using assms by (simp add: updateJobStatus_def Let_def stored_job_def)

text \<open>
  Claim C4, as the code has it. \<open>updateJobStatus\<close> sets \<open>completed_at\<close> when the new status
  is \<open>completed\<close> and leaves it as it was for every other status: it never clears it. So
  in every job record stored while the queue runs a job, retries included, a status
  \<open>completed\<close> comes with a \<open>completed_at\<close>, whatever the record was before. For a job
  whose record is not yet completed (its status is not \<open>completed\<close> and it has no
  \<open>completed_at\<close>, as at creation) the converse holds too: in every record stored during
  the run, and in the record left at the end, \<open>completed_at\<close> is set exactly when the
  status is \<open>completed\<close>.
\<close>

theorem completed_at_iff_completed:
  "list_all (\<lambda>w. completed_with_time (snd w)) (written_since s (run_job env job s))
   \<and> ((case stored_job s (jobKey (data_job_id (data job))) of None \<Rightarrow> True
        | Some v \<Rightarrow> status v \<noteq> ''completed'' \<and> completed_at v = None) \<longrightarrow>
        list_all (\<lambda>w. job_inv (snd w)) (written_since s (run_job env job s))
        \<and> (case stored_job (run_job env job s) (jobKey (data_job_id (data job))) of
             None \<Rightarrow> True | Some v \<Rightarrow> job_inv v))
   \<and> (\<forall>jobId st b v. redis_get_job s (jobKey jobId) = Some v \<longrightarrow>
        map_option (\<lambda>v'. (status v', completed_at v'))
          (stored_job (snd (updateJobStatus jobId st b s)) (jobKey jobId))
        = Some (st, if st = ''completed'' then Some (now s) else completed_at v))"
proof -
  let ?key = "jobKey (data_job_id (data job))"
  let ?T = "\<lambda>v::job. True"
  let ?P = "\<lambda>v. status v = ''processing''"
  have "inv_since (length (job_history s)) ?T completed_with_time ?key s"
    by (rule inv_since_start) (simp split: option.splits)
  then have "inv_since (length (job_history s)) (\<lambda>v. ?T v \<or> ?T v) completed_with_time ?key
               (run_job env job s)"
    by (rule run_job_inv[where Q = ?P and Qa = ?T and R = ?T, rotated -1])
       (simp_all add: completed_with_time_def)
  then have a: "list_all (\<lambda>w. completed_with_time (snd w)) (written_since s (run_job env job s))"
    using inv_since_end by blast
  have b: "list_all (\<lambda>w. job_inv (snd w)) (written_since s (run_job env job s))
        \<and> (case stored_job (run_job env job s) ?key of None \<Rightarrow> True | Some v \<Rightarrow> job_inv v)"
    if pre: "case stored_job s ?key of None \<Rightarrow> True
        | Some v \<Rightarrow> status v \<noteq> ''completed'' \<and> completed_at v = None"
  proof -
    let ?Q = "\<lambda>v. status v \<noteq> ''completed'' \<and> completed_at v = None"
    have "inv_since (length (job_history s)) ?Q job_inv ?key s"
      using pre by (rule inv_since_start)
    then have "inv_since (length (job_history s)) (\<lambda>v. ?Q v \<or> job_inv v) job_inv ?key
                 (run_job env job s)"
      by (rule run_job_inv[where Q = ?Q and Qa = ?Q and R = job_inv, rotated -1])
         (simp_all add: job_inv_def)
    then have "inv_since (length (job_history s)) job_inv job_inv ?key (run_job env job s)"
      by (rule inv_since_weaken) (auto simp add: job_inv_def)
    then show ?thesis by (rule inv_since_end)
  qed
  have c: "\<forall>jobId st b v. redis_get_job s (jobKey jobId) = Some v \<longrightarrow>
        map_option (\<lambda>v'. (status v', completed_at v'))
          (stored_job (snd (updateJobStatus jobId st b s)) (jobKey jobId))
        = Some (st, if st = ''completed'' then Some (now s) else completed_at v)"
    using updateJobStatus_stored by simp
  from a b c show ?thesis by blast
qed

theorem completed_at_iff_completed_witness:
  "map_option (\<lambda>v. (status v, completed_at v))
     (stored_job (submitted ''job_abc'' [70000]) (jobKey ''job_abc'')) = Some (''queued'', None)
   \<and> list_all (\<lambda>w. job_inv (snd w))
       (written_since (submitted ''job_abc'' [70000])
          (run_job env_ok
             \<lparr>data = \<lparr>data_job_id = ''job_abc'', data_file_ids = [70000]\<rparr>, attemptsMade = 0\<rparr>
             (submitted ''job_abc'' [70000])))
   \<and> map (\<lambda>w. (status (snd w), completed_at (snd w)))
       (written_since (submitted ''job_abc'' [70000])
          (run_job env_ok
             \<lparr>data = \<lparr>data_job_id = ''job_abc'', data_file_ids = [70000]\<rparr>, attemptsMade = 0\<rparr>
             (submitted ''job_abc'' [70000])))
     = [(''processing'', None), (''processing'', None), (''completed'', Some 11000)]
   \<and> redis_get_job (submitted ''job_abc'' [70000]) (jobKey ''job_abc'')
     = Some (queued_job ''job_abc'' [70000])
   \<and> map_option (\<lambda>v. (status v, completed_at v))
       (stored_job (snd (updateJobStatus ''job_abc'' ''completed'' None
                           (submitted ''job_abc'' [70000]))) (jobKey ''job_abc''))
     = Some (''completed'', Some 0)
   \<and> map_option (\<lambda>v. (status v, completed_at v))
       (stored_job (snd (updateJobStatus ''job_abc'' ''processing'' None
                           (submitted ''job_abc'' [70000]))) (jobKey ''job_abc''))
     = Some (''processing'', None)"
proof -
  let ?s = "submitted ''job_abc'' [70000]"
  let ?job = "\<lparr>data = \<lparr>data_job_id = ''job_abc'', data_file_ids = [70000]\<rparr>, attemptsMade = 0\<rparr>"
  note th = completed_at_iff_completed [of ?s env_ok ?job]
  have pre: "case stored_job ?s (jobKey (data_job_id (data ?job))) of None \<Rightarrow> True
             | Some v \<Rightarrow> status v \<noteq> ''completed'' \<and> completed_at v = None"
    by (simp add: stored_job_def example_defs)
  have a: "map_option (\<lambda>v. (status v, completed_at v)) (stored_job ?s (jobKey ''job_abc''))
             = Some (''queued'', None)"
    by (simp add: stored_job_def example_defs)
  have b: "map (\<lambda>w. (status (snd w), completed_at (snd w))) (written_since ?s (run_job env_ok ?job ?s))
             = [(''processing'', None), (''processing'', None), (''completed'', Some 11000)]"
    by (simp add: queue_defs run_defs example_defs)
  have g: "redis_get_job ?s (jobKey ''job_abc'') = Some (queued_job ''job_abc'' [70000])"
    by (simp add: redis_get_job_def live_def submitted_def)
  from th pre have c: "list_all (\<lambda>w. job_inv (snd w)) (written_since ?s (run_job env_ok ?job ?s))"
    by blast
  from th have u: "\<forall>jobId st b v. redis_get_job ?s (jobKey jobId) = Some v \<longrightarrow>
        map_option (\<lambda>v'. (status v', completed_at v'))
          (stored_job (snd (updateJobStatus jobId st b ?s)) (jobKey jobId))
        = Some (st, if st = ''completed'' then Some (now ?s) else completed_at v)"
    by blast
  have n: "now ?s = 0" "completed_at (queued_job ''job_abc'' [70000]) = None"
    by (simp_all add: submitted_def queued_job_def)
  from u[rule_format, OF g, of "''completed''" None] have d1: "map_option (\<lambda>v. (status v, completed_at v))
       (stored_job (snd (updateJobStatus ''job_abc'' ''completed'' None ?s)) (jobKey ''job_abc''))
     = Some (''completed'', Some 0)"
    using n by simp
  from u[rule_format, OF g, of "''processing''" None] have d2: "map_option (\<lambda>v. (status v, completed_at v))
       (stored_job (snd (updateJobStatus ''job_abc'' ''processing'' None ?s)) (jobKey ''job_abc''))
     = Some (''processing'', None)"
    using n by simp
  from a b c g d1 d2 show ?thesis by simp
qed

text \<open>
  The claim as the specification states it, for every job record at every point, fails for
  a record that is already completed. The job of the store \<open>completed_store\<close> completed at
  time 11000. Setting its status to \<open>processing\<close>, which is the first thing the worker
  does when the job is run again, stores a record with status \<open>processing\<close> that still
  has \<open>completed_at\<close> 11000, and so does the progress update that follows.
\<close>

theorem completed_at_kept_counterexample:
  "map_option (\<lambda>v. (status v, completed_at v)) (stored_job completed_store (jobKey ''job_abc''))
     = Some (''completed'', Some 11000)
   \<and> map_option (\<lambda>v. (status v, completed_at v))
       (stored_job (snd (updateJobStatus ''job_abc'' ''processing'' None completed_store))
          (jobKey ''job_abc''))
     = Some (''processing'', Some 11000)
   \<and> map (\<lambda>w. (status (snd w), completed_at (snd w)))
       (written_since completed_store
          (run_job env_ok
             \<lparr>data = \<lparr>data_job_id = ''job_abc'', data_file_ids = [70000]\<rparr>, attemptsMade = 0\<rparr>
             completed_store))
     = [(''processing'', Some 11000), (''processing'', Some 11000), (''completed'', Some 22000)]
   \<and> \<not> list_all (\<lambda>w. job_inv (snd w))
       (written_since completed_store
          (run_job env_ok
             \<lparr>data = \<lparr>data_job_id = ''job_abc'', data_file_ids = [70000]\<rparr>, attemptsMade = 0\<rparr>
             completed_store))"
  by (simp add: completed_store_def queue_defs run_defs example_defs job_inv_def)

text \<open>
  Claim C5, as the code has it. No code path sets a job to \<open>failed\<close>: every job record
  stored while the queue runs the job, retries included, has status \<open>processing\<close> or
  \<open>completed\<close> and the error field it had before, and so has the record left at the end
  (its status is whatever it was, \<open>processing\<close> or \<open>completed\<close>, never \<open>failed\<close>).
\<close>

theorem job_never_marked_failed:
  assumes "case stored_job s (jobKey (data_job_id (data job))) of None \<Rightarrow> True
           | Some v \<Rightarrow> status v \<noteq> ''failed'' \<and> error v = err0"
  shows "list_all (\<lambda>w. (status (snd w) = ''processing'' \<or> status (snd w) = ''completed'')
                        \<and> error (snd w) = err0)
           (written_since s (run_job env job s))
       \<and> (case stored_job (run_job env job s) (jobKey (data_job_id (data job))) of
            None \<Rightarrow> True | Some v \<Rightarrow> status v \<noteq> ''failed'' \<and> error v = err0)"
proof -
  let ?Start = "\<lambda>v. status v \<noteq> ''failed'' \<and> error v = err0"
  let ?Run = "\<lambda>v. status v = ''processing'' \<and> error v = err0"
  let ?Fin = "\<lambda>v. status v = ''completed'' \<and> error v = err0"
  let ?Wr = "\<lambda>v. (status v = ''processing'' \<or> status v = ''completed'') \<and> error v = err0"
  let ?key = "jobKey (data_job_id (data job))"
  have "inv_since (length (job_history s)) ?Start ?Wr ?key s"
    using assms by (rule inv_since_start)
  then have "inv_since (length (job_history s)) (\<lambda>v. ?Start v \<or> ?Fin v) ?Wr ?key (run_job env job s)"
    by (rule run_job_inv[where Q = ?Run and Qa = ?Start and R = ?Fin, rotated -1]) simp_all
  then have "inv_since (length (job_history s)) ?Start ?Wr ?key (run_job env job s)"
    by (rule inv_since_weaken) auto
  then show ?thesis by (rule inv_since_end)
qed

theorem job_never_marked_failed_witness:
  "map_option (\<lambda>v. (status v, error v))
     (stored_job (submitted ''job_abc'' [70000]) (jobKey ''job_abc'')) = Some (''queued'', None)
   \<and> list_all (\<lambda>w. (status (snd w) = ''processing'' \<or> status (snd w) = ''completed'')
                     \<and> error (snd w) = None)
       (written_since (submitted ''job_abc'' [70000])
          (run_job (env_failing 70000)
             \<lparr>data = \<lparr>data_job_id = ''job_abc'', data_file_ids = [70000]\<rparr>, attemptsMade = 0\<rparr>
             (submitted ''job_abc'' [70000])))
   \<and> length (written_since (submitted ''job_abc'' [70000])
          (run_job (env_failing 70000)
             \<lparr>data = \<lparr>data_job_id = ''job_abc'', data_file_ids = [70000]\<rparr>, attemptsMade = 0\<rparr>
             (submitted ''job_abc'' [70000]))) = 3"
proof -
  let ?s = "submitted ''job_abc'' [70000]"
  let ?job = "\<lparr>data = \<lparr>data_job_id = ''job_abc'', data_file_ids = [70000]\<rparr>, attemptsMade = 0\<rparr>"
  have pre: "case stored_job ?s (jobKey (data_job_id (data ?job))) of None \<Rightarrow> True
             | Some v \<Rightarrow> status v \<noteq> ''failed'' \<and> error v = None"
    by (simp add: stored_job_def example_defs)
  have a: "map_option (\<lambda>v. (status v, error v)) (stored_job ?s (jobKey ''job_abc''))
             = Some (''queued'', None)"
    by (simp add: stored_job_def example_defs)
  have b: "length (written_since ?s (run_job (env_failing 70000) ?job ?s)) = 3"
    by (simp add: queue_defs run_defs example_defs)
  from job_never_marked_failed [OF pre, of "env_failing 70000"] a b show ?thesis by simp
qed

text \<open>
  The claim as the specification states it fails: the only file of a job fails on all
  three attempts, so every task of the job is terminal and one is \<open>failed\<close>, and the job
  record is left with status \<open>processing\<close> and no error.
\<close>

theorem job_not_failed_counterexample:
  "map_option (file_status \<circ> fst)
     (files (run_job (env_failing 70000)
               \<lparr>data = \<lparr>data_job_id = ''job_abc'', data_file_ids = [70000]\<rparr>, attemptsMade = 0\<rparr>
               (submitted ''job_abc'' [70000])) (fileKey ''job_abc'' 70000))
     = Some ''failed''
   \<and> map_option (\<lambda>v. (file_ids v, status v, error v))
       (stored_job (run_job (env_failing 70000)
               \<lparr>data = \<lparr>data_job_id = ''job_abc'', data_file_ids = [70000]\<rparr>, attemptsMade = 0\<rparr>
               (submitted ''job_abc'' [70000])) (jobKey ''job_abc''))
     = Some ([70000], ''processing'', None)"
  by (simp add: queue_defs run_defs example_defs)

section \<open>Retries and the dead-letter queue\<close>






lemma on_failed_simps [simp]:
  "trace (on_failed job err s) = trace s"
  "files (on_failed job err s) = files s"
  by (simp_all add: on_failed_def)


subsection \<open>A file whose download always fails\<close>


lemma updateFileStatus_calls [simp]:
  "calls (updateFileStatus j f st url err s) = calls s"
  by (simp add: updateFileStatus_def Let_def redis_setex_file_def record_call_def)









subsection \<open>The retry inside one call\<close>

lemma call_processDownload_result:
  "call_processDownload env f s =
     (snd (processDownload env f (calls s)),
      advance (fst (processDownload env f (calls s)))
        ((record_call (ProcessDownload f) s)\<lparr>calls := calls s + 1\<rparr>))"
  by (simp add: call_processDownload_def split: prod.splits)

lemma call_processDownload_calls [simp]:
  "calls (snd (call_processDownload env f s)) = calls s + 1"
  by (simp add: call_processDownload_result)

lemma sleep_simps [simp]:
  "calls (sleep d s) = calls s"
  "trace (sleep d s) = trace s @ [Sleep d]"
  by (simp_all add: sleep_def)







end
